theory Spec2Isabelle
  imports Complex_Main "HOL-Library.Log_Nat" "HOL-Library.Sublist" "HOL-Library.Multiset"
begin

section \<open>JavaScript numbers\<close>

text \<open>
  Every number of the scan functions is a JavaScript Number, an IEEE 754 binary64 value.
  A finite double is a rational, so a Number is modelled as the \<^typ>\<open>rat\<close> it denotes and
  every arithmetic operator computes the exact result and rounds it to the nearest double,
  ties to the even significand (\<open>fl\<close>). The significand has 53 bits; the exponent is not
  bounded, because the scores stay far from overflow and from the subnormal range.
  NaN, the infinities and the sign of zero do not occur: the only divisions are by
  \<open>Math.max(1, _)\<close> and by \<open>total\<close> after the \<open>total === 0\<close> return.
\<close>

type_synonym number = rat

definition expo :: "rat \<Rightarrow> int" where
  \<comment> \<open>the binary exponent of a non-zero \<open>x\<close>: \<open>2 powi expo x \<le> \<bar>x\<bar> < 2 powi (expo x + 1)\<close>\<close>
  "expo x = (let a = fst (quotient_of x); b = snd (quotient_of x);
                 k = bitlen \<bar>a\<bar> - bitlen b
             in if 2 powi k \<le> \<bar>x\<bar> then k else k - 1)"

definition round_half_even :: "rat \<Rightarrow> int" where
  "round_half_even r =
     (let f = \<lfloor>r\<rfloor>; d = r - of_int f
      in if d < 1/2 then f else if 1/2 < d then f + 1 else if even f then f else f + 1)"

definition fl :: "rat \<Rightarrow> number" where
  \<comment> \<open>round to nearest double, ties to even: the unit in the last place is \<open>2 powi (expo x - 52)\<close>\<close>
  "fl x = (if x = 0 then 0
           else let u = 2 powi (expo x - 52) in of_int (round_half_even (x / u)) * u)"

definition jadd :: "number \<Rightarrow> number \<Rightarrow> number" where
  "jadd x y = fl (x + y)"

definition jsub :: "number \<Rightarrow> number \<Rightarrow> number" where
  "jsub x y = fl (x - y)"

definition jmul :: "number \<Rightarrow> number \<Rightarrow> number" where
  "jmul x y = fl (x * y)"

definition jdiv :: "number \<Rightarrow> number \<Rightarrow> number" where
  \<comment> \<open>only called with a non-zero divisor\<close>
  "jdiv x y = fl (x / y)"

definition Math_round :: "number \<Rightarrow> int" where
  \<comment> \<open>\<open>Math.round\<close>: the nearest integer, a tie going towards \<open>+\<infinity>\<close>; the result is exact\<close>
  "Math_round x = \<lfloor>x + 1/2\<rfloor>"

section \<open>JavaScript strings and regular expressions\<close>

text \<open>
  A string is a list of characters. The model covers ASCII text: \<open>toLowerCase\<close> and the
  case folding of the \<open>i\<close> flag change the 26 letters only, and \<open>\s\<close> is the six ASCII
  white-space characters; a character above 127 stands for a caseless symbol.
\<close>

definition toLowerCase_char :: "char \<Rightarrow> char" where
  "toLowerCase_char c =
     (let n = of_char c :: nat in if 65 \<le> n \<and> n \<le> 90 then char_of (n + 32) else c)"

definition toLowerCase :: "string \<Rightarrow> string" where
  "toLowerCase s = map toLowerCase_char s"

definition canonicalize :: "char \<Rightarrow> char" where
  \<comment> \<open>the case folding of a regular expression with the \<open>i\<close> flag: to upper case\<close>
  "canonicalize c =
     (let n = of_char c :: nat in if 97 \<le> n \<and> n \<le> 122 then char_of (n - 32) else c)"

definition is_space :: "char \<Rightarrow> bool" where
  \<comment> \<open>\<open>\s\<close>: tab, line feed, vertical tab, form feed, carriage return, space\<close>
  "is_space c = (of_char c \<in> {9::nat, 10, 11, 12, 13, 32})"

fun str_includes :: "string \<Rightarrow> string \<Rightarrow> bool" where
  \<comment> \<open>\<open>s.includes(p)\<close>\<close>
  "str_includes [] p = (p = [])"
| "str_includes (c # cs) p = (prefix p (c # cs) \<or> str_includes cs p)"

fun indexOf :: "string \<Rightarrow> string \<Rightarrow> int" where
  \<comment> \<open>\<open>s.indexOf(p)\<close>: the first position of \<open>p\<close>, or \<open>-1\<close>\<close>
  "indexOf [] p = (if p = [] then 0 else - 1)"
| "indexOf (c # cs) p =
     (if prefix p (c # cs) then 0
      else let i = indexOf cs p in if i < 0 then - 1 else i + 1)"

definition substring :: "string \<Rightarrow> int \<Rightarrow> int \<Rightarrow> string" where
  \<comment> \<open>\<open>s.substring(a, b)\<close>: both indices are clamped to the string and swapped if \<open>a > b\<close>\<close>
  "substring s a b =
     (let n = int (length s);
          a' = min (max a 0) n;
          b' = min (max b 0) n;
          lo = min a' b';
          hi = max a' b'
      in take (nat (hi - lo)) (drop (nat lo) s))"

text \<open>
  Regular expressions built by \<open>new RegExp(source, 'gi')\<close> are modelled on the fragment
  of the pattern syntax that the escaped names use: a pattern is a sequence of atoms,
  each matching one character. An ordinary character and an escaped syntax character
  match themselves up to case, and a dot matches every character except a line
  terminator. The constructor gives \<open>None\<close> for a source outside the fragment (a
  quantifier, a group, a class, an anchor, an alternation, another escape).
\<close>

datatype atom = Lit char | Dot

definition backslash :: char where
  "backslash = CHR 0x5C"

definition syntax_chars :: "char list" where
  \<comment> \<open>the characters of the class \<open>[.*+?^${}()|[\]\\]\<close>\<close>
  "syntax_chars = ''.*+?^${}()|[]'' @ [backslash]"

definition escapeRegExp :: "string \<Rightarrow> string" where
  \<comment> \<open>\<open>s.replace(/[.*+?^${}()|[\]\\]/g, '\\$&')\<close>: a backslash before each syntax character\<close>
  "escapeRegExp s = concat (map (\<lambda>c. if c \<in> set syntax_chars then [backslash, c] else [c]) s)"

fun RegExp :: "string \<Rightarrow> atom list option" where
  "RegExp [] = Some []"
| "RegExp [c] = (if c \<in> set syntax_chars then (if c = CHR ''.'' then Some [Dot] else None)
                 else Some [Lit c])"
| "RegExp (c # d # cs) =
     (if c = backslash then
        (if d \<in> set syntax_chars then map_option (\<lambda>as. Lit d # as) (RegExp cs) else None)
      else if c = CHR ''.'' then map_option (\<lambda>as. Dot # as) (RegExp (d # cs))
      else if c \<in> set syntax_chars then None
      else map_option (\<lambda>as. Lit c # as) (RegExp (d # cs)))"

fun atom_matches :: "atom \<Rightarrow> char \<Rightarrow> bool" where
  "atom_matches (Lit c) d = (canonicalize c = canonicalize d)"
| "atom_matches Dot d = (of_char d \<notin> {10::nat, 13})"

fun match_here :: "atom list \<Rightarrow> string \<Rightarrow> bool" where
  \<comment> \<open>the pattern matches a prefix of the text; the match has as many characters as atoms\<close>
  "match_here [] s = True"
| "match_here (a # as) [] = False"
| "match_here (a # as) (c # cs) = (atom_matches a c \<and> match_here as cs)"

fun exec_all :: "atom list \<Rightarrow> nat \<Rightarrow> string \<Rightarrow> string list" where
  \<comment> \<open>the loop of a global match: the matched substrings from left to right. The counter
      is the number of characters up to \<open>lastIndex\<close>, which is the end of the last match,
      or one further after an empty match.\<close>
  "exec_all re k [] = (if k = 0 \<and> match_here re [] then [[]] else [])"
| "exec_all re (Suc k) (c # cs) = exec_all re k cs"
| "exec_all re 0 (c # cs) =
     (if match_here re (c # cs)
      then take (length re) (c # cs) # exec_all re (length re - 1) cs
      else exec_all re 0 cs)"

definition match_g :: "string \<Rightarrow> atom list \<Rightarrow> string list option" where
  \<comment> \<open>\<open>text.match(re)\<close> for a global \<open>re\<close>: all matches, or \<open>null\<close> when there is none\<close>
  "match_g text re = (let ms = exec_all re 0 text in if ms = [] then None else Some ms)"

definition or_empty :: "'a list option \<Rightarrow> 'a list" where
  \<comment> \<open>\<open>m || []\<close>\<close>
  "or_empty m = (case m of None \<Rightarrow> [] | Some ms \<Rightarrow> ms)"

text \<open>
  The citation pattern \<open>/https?:\/\/[^\s<>"{}|\\^`\[\]]+/gi\<close> is matched by a function of
  its own: the scheme up to case, then at least one character outside the class, as many
  as there are.
\<close>

definition url_char :: "char \<Rightarrow> bool" where
  "url_char c = (\<not> is_space c \<and>
     c \<notin> set (''<>{}|^[]'' @ [CHR 0x22, backslash, CHR 0x60]))"

definition url_at :: "string \<Rightarrow> string option" where
  "url_at s =
     (if toLowerCase (take 4 s) = ''http'' then
        (let r = drop 4 s;
             r' = (if toLowerCase (take 1 r) = ''s'' then drop 1 r else r);
             body = takeWhile url_char (drop 3 r')
         in if take 3 r' = ''://'' \<and> body \<noteq> []
            then Some (take (length s - length r' + 3 + length body) s)
            else None)
      else None)"

fun url_scan :: "nat \<Rightarrow> string \<Rightarrow> string list" where
  "url_scan k [] = []"
| "url_scan (Suc k) (c # cs) = url_scan k cs"
| "url_scan 0 (c # cs) =
     (case url_at (c # cs) of
        Some m \<Rightarrow> m # url_scan (length m - 1) cs
      | None \<Rightarrow> url_scan 0 cs)"

definition url_match :: "string \<Rightarrow> string list option" where
  "url_match text = (let ms = url_scan 0 text in if ms = [] then None else Some ms)"

section \<open>The data model\<close>

datatype SentimentType = VERY_POSITIVE | POSITIVE | NEUTRAL | CAUTIOUS | NEGATIVE | VERY_NEGATIVE

text \<open>The mention type \<open>'NEGATIVE'\<close> is written \<open>NEGATIVE_MENTION\<close>, apart from the sentiment.\<close>

datatype MentionType =
  PRIMARY | FEATURED | LISTED | BRIEF | COMPARISON | CITATION | NEGATIVE_MENTION | ABSENT

datatype RecommendationStrength = STRONG | MODERATE | NONE

text \<open>
  The object returned by \<open>analyzeResponse\<close>. The fields \<open>ranking\<close>, \<open>keyPhrases\<close>,
  \<open>positiveIndicators\<close> and \<open>negativeIndicators\<close> are left out: \<open>calculateScores\<close> reads
  none of them and no other field is computed from them.
\<close>

record analysis =
  mentioned :: bool
  mentionType :: MentionType
  mentionContext :: string
  mentionCount :: nat
  sentiment :: SentimentType
  sentimentScore :: number
  confidenceScore :: number
  hasHedging :: bool
  hedgingPhrases :: "string list"
  isRecommended :: bool
  recommendationStrength :: RecommendationStrength
  citedUrl :: "string option"
  citedSources :: "string list"
  competitorsMentioned :: "string list"

record scores =
  overall_score :: int
  ai_trust_score :: int
  ai_visibility_score :: int
  ai_recommendation_score :: int
  ai_citation_score :: int
  sentiment_score :: int
  confidence_score :: int

section \<open>Analysis: \<open>analyzeResponse\<close>\<close>

definition HEDGING_WORDS :: "string list" where
  "HEDGING_WORDS =
     [''might'', ''could'', ''may'', ''possibly'', ''perhaps'', ''maybe'',
      ''generally'', ''typically'', ''usually'', ''sometimes'', ''often'',
      ''it seems'', ''appears to'', ''tends to'', ''some say'']"

definition POSITIVE_INDICATORS :: "string list" where
  "POSITIVE_INDICATORS =
     [''excellent'', ''outstanding'', ''great'', ''recommend'', ''trusted'',
      ''reliable'', ''best'', ''top'', ''quality'', ''professional'',
      ''highly recommended'', ''well-known'', ''established'']"

definition NEGATIVE_INDICATORS :: "string list" where
  "NEGATIVE_INDICATORS =
     [''complaints'', ''issues'', ''problems'', ''avoid'', ''poor'',
      ''negative'', ''scam'', ''controversial'', ''warning'', ''careful'']"

definition RECOMMENDATION_PHRASES :: "string list" where
  "RECOMMENDATION_PHRASES =
     [''recommend'', ''suggest'', ''consider'', ''good choice'', ''worth'',
      ''definitely'', ''should try'', ''top pick'']"

definition mention_context :: "string \<Rightarrow> string \<Rightarrow> string" where
  \<comment> \<open>the body of \<open>if (mentioned) { ... }\<close>: 150 characters on each side of the first match\<close>
  "mention_context responseText businessName =
     (let lowerText = toLowerCase responseText;
          lowerBusiness = toLowerCase businessName;
          index = indexOf lowerText lowerBusiness;
          start = max 0 (index - 150);
          end' = min (int (length responseText)) (index + int (length businessName) + 150);
          ctx = substring responseText start end';
          ctx1 = (if start > 0 then ''...'' @ ctx else ctx)
      in if end' < int (length responseText) then ctx1 @ ''...'' else ctx1)"

definition sentiment_score_of :: "nat \<Rightarrow> nat \<Rightarrow> number" where
  \<comment> \<open>\<open>(positiveCount - negativeCount) / Math.max(1, positiveCount + negativeCount)\<close>\<close>
  "sentiment_score_of positiveCount negativeCount =
     jdiv (of_int (int positiveCount - int negativeCount))
          (of_nat (max 1 (positiveCount + negativeCount)))"

definition confidence_score_of :: "nat \<Rightarrow> nat \<Rightarrow> number" where
  \<comment> \<open>\<open>Math.max(0, Math.min(1, 0.5 + (positiveCount * 0.1) - (hedgingPhrases.length * 0.1)))\<close>\<close>
  "confidence_score_of positiveCount hedgingCount =
     max 0 (min 1 (jsub (jadd (fl (5/10)) (jmul (of_nat positiveCount) (fl (1/10))))
                        (jmul (of_nat hedgingCount) (fl (1/10)))))"

definition cited_url :: "string list option \<Rightarrow> string \<Rightarrow> string option" where
  \<comment> \<open>\<open>urlMatch?.find(url => url.toLowerCase().includes(lowerBusiness.replace(/\s+/g, ''))) || null\<close>\<close>
  "cited_url urlMatch lowerBusiness =
     (case urlMatch of
        None \<Rightarrow> None
      | Some urls \<Rightarrow>
          (case find (\<lambda>url. str_includes (toLowerCase url)
                                (filter (\<lambda>c. \<not> is_space c) lowerBusiness)) urls of
             None \<Rightarrow> None
           | Some url \<Rightarrow> if url = [] then None else Some url))"

definition analyzeResponse :: "string \<Rightarrow> string \<Rightarrow> string list \<Rightarrow> analysis option" where
  "analyzeResponse responseText businessName competitors =
     (let lowerText = toLowerCase responseText;
          lowerBusiness = toLowerCase businessName;
          mentioned' = str_includes lowerText lowerBusiness
      in case RegExp (escapeRegExp lowerBusiness) of
           None \<Rightarrow> None
         | Some mentionRegex \<Rightarrow>
            (let mentionCount' = length (or_empty (match_g responseText mentionRegex));
                 mentionContext' =
                   (if mentioned' then mention_context responseText businessName else []);
                 positiveCount = length (filter (str_includes lowerText) POSITIVE_INDICATORS);
                 negativeCount = length (filter (str_includes lowerText) NEGATIVE_INDICATORS);
                 sentimentScore' = sentiment_score_of positiveCount negativeCount;
                 sentiment' =
                   (if negativeCount \<ge> 2 then NEGATIVE
                    else if sentimentScore' > fl (3/10) then POSITIVE
                    else if sentimentScore' > 0 then POSITIVE
                    else if negativeCount > 0 then CAUTIOUS
                    else NEUTRAL);
                 hedgingPhrases' = filter (str_includes lowerText) HEDGING_WORDS;
                 hasHedging' = (length hedgingPhrases' \<ge> 2);
                 recommendationCount =
                   length (filter (str_includes lowerText) RECOMMENDATION_PHRASES);
                 isRecommended' = (recommendationCount > 0 \<and> sentiment' \<noteq> NEGATIVE);
                 recommendationStrength' =
                   (if recommendationCount \<ge> 2 then STRONG
                    else if recommendationCount = 1 then MODERATE else NONE);
                 confidenceScore' = confidence_score_of positiveCount (length hedgingPhrases');
                 mentionType' =
                   (if \<not> mentioned' then ABSENT
                    else if negativeCount \<ge> 2 then NEGATIVE_MENTION
                    else if mentionCount' \<ge> 3 then PRIMARY
                    else if mentionCount' \<ge> 2 then FEATURED
                    else if list_ex (\<lambda>c. str_includes lowerText (toLowerCase c)) competitors
                         then COMPARISON
                    else BRIEF);
                 competitorsMentioned' =
                   filter (\<lambda>c. str_includes lowerText (toLowerCase c)) competitors;
                 urlMatch = url_match responseText
             in Some \<lparr>mentioned = mentioned', mentionType = mentionType',
                      mentionContext = mentionContext', mentionCount = mentionCount',
                      sentiment = sentiment', sentimentScore = sentimentScore',
                      confidenceScore = confidenceScore', hasHedging = hasHedging',
                      hedgingPhrases = hedgingPhrases', isRecommended = isRecommended',
                      recommendationStrength = recommendationStrength',
                      citedUrl = cited_url urlMatch lowerBusiness,
                      citedSources = or_empty urlMatch,
                      competitorsMentioned = competitorsMentioned'\<rparr>))"

section \<open>Competitor analysis: \<open>analyzeCompetitorResponse\<close>\<close>

record competitor_analysis =
  c_mentioned :: bool
  c_mentionCount :: nat
  c_sentimentScore :: number
  c_isRecommended :: bool
  c_positiveCount :: nat
  c_negativeCount :: nat

definition analyzeCompetitorResponse :: "string \<Rightarrow> string \<Rightarrow> competitor_analysis option" where
  "analyzeCompetitorResponse response competitorName =
     (let lowerText = toLowerCase response;
          lowerName = toLowerCase competitorName;
          mentioned' = str_includes lowerText lowerName
      in case RegExp lowerName of
           None \<Rightarrow> None
         | Some re \<Rightarrow>
            (let mentionCount' = length (or_empty (match_g response re));
                 positiveWords =
                   [''excellent'', ''great'', ''recommend'', ''trusted'', ''best'', ''quality''];
                 negativeWords = [''complaints'', ''issues'', ''avoid'', ''poor'', ''negative''];
                 positiveCount = length (filter (str_includes lowerText) positiveWords);
                 negativeCount = length (filter (str_includes lowerText) negativeWords);
                 sentimentScore' = sentiment_score_of positiveCount negativeCount;
                 isRecommended' = (str_includes lowerText ''recommend'' \<and> negativeCount = 0)
             in Some \<lparr>c_mentioned = mentioned', c_mentionCount = mentionCount',
                      c_sentimentScore = sentimentScore', c_isRecommended = isRecommended',
                      c_positiveCount = positiveCount, c_negativeCount = negativeCount\<rparr>))"

section \<open>Scoring: \<open>calculateScores\<close>\<close>

definition truthy :: "string option \<Rightarrow> bool" where
  \<comment> \<open>\<open>a.citedUrl\<close> used as a condition: \<open>null\<close> and the empty string are falsy\<close>
  "truthy u = (case u of None \<Rightarrow> False | Some s \<Rightarrow> s \<noteq> [])"

definition count_where :: "(analysis \<Rightarrow> bool) \<Rightarrow> analysis list \<Rightarrow> number" where
  \<comment> \<open>\<open>analyses.filter(f).length\<close>\<close>
  "count_where f analyses = of_nat (length (filter f analyses))"

definition trust_formula :: "int \<Rightarrow> number \<Rightarrow> int \<Rightarrow> number \<Rightarrow> int" where
  \<comment> \<open>the expression of \<open>ai_trust_score\<close>, from the sentiment score, the hedging rate, the
      recommendation score and the percentage of analyses whose mention type is not negative\<close>
  "trust_formula s hedgingRate r nonNegativePct =
     Math_round
       (jadd (jadd (jadd (jmul (of_int s) (fl (35/100)))
                         (jmul (jsub 100 (jmul hedgingRate 100)) (fl (30/100))))
                   (jmul (of_int r) (fl (25/100))))
             (jmul nonNegativePct (fl (10/100))))"

definition overall_formula :: "int \<Rightarrow> int \<Rightarrow> int \<Rightarrow> int \<Rightarrow> int \<Rightarrow> int \<Rightarrow> int" where
  \<comment> \<open>the expression of \<open>overall_score\<close>, from the six integer scores\<close>
  "overall_formula t v r c s cf =
     Math_round
       (jadd (jadd (jadd (jadd (jadd (jmul (of_int t) (fl (25/100)))
                                     (jmul (of_int v) (fl (20/100))))
                               (jmul (of_int r) (fl (20/100))))
                         (jmul (of_int c) (fl (10/100))))
                   (jmul (of_int s) (fl (15/100))))
             (jmul (of_int cf) (fl (10/100))))"

definition calculateScores :: "analysis list \<Rightarrow> scores" where
  "calculateScores analyses =
     (let total = of_nat (length analyses) :: number in
      if length analyses = 0 then
        \<lparr>overall_score = 0, ai_trust_score = 0, ai_visibility_score = 0,
         ai_recommendation_score = 0, ai_citation_score = 0,
         sentiment_score = 50, confidence_score = 50\<rparr>
      else
        let mentionedCount = count_where mentioned analyses;
            visibilityRate = jdiv mentionedCount total;
            ai_visibility = Math_round (jmul visibilityRate 100);
            avgSentiment = jdiv (foldl (\<lambda>sum a. jadd sum (sentimentScore a)) 0 analyses) total;
            sentiment_sc = Math_round (jmul (jdiv (jadd avgSentiment 1) 2) 100);
            avgConfidence = jdiv (foldl (\<lambda>sum a. jadd sum (confidenceScore a)) 0 analyses) total;
            confidence_sc = Math_round (jmul avgConfidence 100);
            recommendedCount = count_where isRecommended analyses;
            ai_recommendation = Math_round (jmul (jdiv recommendedCount total) 100);
            citedCount = count_where (\<lambda>a. truthy (citedUrl a)) analyses;
            ai_citation = Math_round (jmul (jdiv citedCount total) 100);
            hedgingRate = jdiv (count_where hasHedging analyses) total;
            ai_trust = trust_formula sentiment_sc hedgingRate ai_recommendation
                         (jmul (jdiv (count_where (\<lambda>a. mentionType a \<noteq> NEGATIVE_MENTION) analyses)
                                     total) 100);
            overall = overall_formula ai_trust ai_visibility ai_recommendation ai_citation
                        sentiment_sc confidence_sc
        in \<lparr>overall_score = overall, ai_trust_score = ai_trust,
            ai_visibility_score = ai_visibility, ai_recommendation_score = ai_recommendation,
            ai_citation_score = ai_citation, sentiment_score = sentiment_sc,
            confidence_score = confidence_sc\<rparr>)"

section \<open>Alerts: the end of the run-scan handler\<close>

datatype AlertType = SCORE_DROP | SCORE_IMPROVEMENT

datatype AlertSeverity = INFO | WARNING | CRITICAL | POSITIVE_SEVERITY

text \<open>
  The row inserted into \<open>alerts\<close>; \<open>data\<close> is the pair \<open>(previousScore, newScore)\<close>. The
  user and business identifiers, the title and the message are left out.
\<close>

record alert =
  alert_type :: AlertType
  severity :: AlertSeverity
  data :: "int \<times> int"

definition create_alerts :: "scores \<Rightarrow> scores option \<Rightarrow> alert option" where
  \<comment> \<open>\<open>if (prevScore && scores.overall_score < prevScore.overall_score - 10) insert ...\<close>\<close>
  "create_alerts sc prevScore =
     (case prevScore of
        None \<Rightarrow> None
      | Some prev \<Rightarrow>
          if overall_score sc < overall_score prev - 10 then
            Some \<lparr>alert_type = SCORE_DROP,
                  severity = (if overall_score sc < overall_score prev - 20
                              then CRITICAL else WARNING),
                  data = (overall_score prev, overall_score sc)\<rparr>
          else None)"

section \<open>Definitions used to state the properties\<close>

definition hits :: "string list \<Rightarrow> string \<Rightarrow> string list" where
  \<comment> \<open>the entries of a lexicon found in the lower-cased response, each counted once\<close>
  "hits lexicon responseText = filter (str_includes (toLowerCase responseText)) lexicon"

definition sentiment_of :: "nat \<Rightarrow> nat \<Rightarrow> SentimentType" where
  \<comment> \<open>the sentiment category that \<open>analyzeResponse\<close> assigns to the two counts\<close>
  "sentiment_of positiveCount negativeCount =
     (if negativeCount \<ge> 2 then NEGATIVE
      else if sentiment_score_of positiveCount negativeCount > fl (3/10) then POSITIVE
      else if sentiment_score_of positiveCount negativeCount > 0 then POSITIVE
      else if negativeCount > 0 then CAUTIOUS
      else NEUTRAL)"

text \<open>
  The formulas in exact arithmetic, as the specification words them: rounding is half
  away from zero, and nothing is rounded before the final conversion to an integer.
\<close>

definition spec_round :: "rat \<Rightarrow> int" where
  "spec_round x = (if 0 \<le> x then \<lfloor>x + 1/2\<rfloor> else - \<lfloor>- x + 1/2\<rfloor>)"

definition spec_rate_score :: "nat \<Rightarrow> nat \<Rightarrow> int" where
  \<comment> \<open>\<open>round(100 \<times> count / n)\<close>\<close>
  "spec_rate_score k n = spec_round (100 * of_nat k / of_nat n)"

definition spec_trust :: "int \<Rightarrow> rat \<Rightarrow> int \<Rightarrow> rat \<Rightarrow> int" where
  \<comment> \<open>\<open>round(0.35\<times>sentiment + 0.30\<times>(100 - 100\<times>hedgingRate) + 0.25\<times>recommendation
      + 0.10\<times>100\<times>nonNegativeRate)\<close>\<close>
  "spec_trust s hedgingRate r nonNegativeRate =
     spec_round (35/100 * of_int s + 30/100 * (100 - 100 * hedgingRate)
                 + 25/100 * of_int r + 10/100 * 100 * nonNegativeRate)"

definition spec_overall :: "int \<Rightarrow> int \<Rightarrow> int \<Rightarrow> int \<Rightarrow> int \<Rightarrow> int \<Rightarrow> int" where
  \<comment> \<open>\<open>round(0.25\<times>trust + 0.20\<times>visibility + 0.20\<times>recommendation + 0.10\<times>citation
      + 0.15\<times>sentiment + 0.10\<times>confidence)\<close>\<close>
  "spec_overall t v r c s cf =
     spec_round (25/100 * of_int t + 20/100 * of_int v + 20/100 * of_int r
                 + 10/100 * of_int c + 15/100 * of_int s + 10/100 * of_int cf)"

definition spec_confidence :: "nat \<Rightarrow> nat \<Rightarrow> rat" where
  \<comment> \<open>\<open>clamp01(0.5 + 0.1\<times>positiveCount - 0.1\<times>hedgingHitCount)\<close>\<close>
  "spec_confidence positiveCount hedgingCount =
     max 0 (min 1 (1/2 + of_nat positiveCount / 10 - of_nat hedgingCount / 10))"

definition in_percent :: "int \<Rightarrow> bool" where
  \<comment> \<open>a score between 0 and 100\<close>
  "in_percent n = (0 \<le> n \<and> n \<le> 100)"

definition scan_analyses :: "string list \<Rightarrow> string \<Rightarrow> string list \<Rightarrow> analysis list" where
  \<comment> \<open>the loop of the run-scan handler: each response is analysed for the same business
      and the analysis is pushed onto \<open>analyses\<close>\<close>
  "scan_analyses responses businessName competitors =
     List.map_filter (\<lambda>response. analyzeResponse response businessName competitors) responses"

function count_occurrences :: "string \<Rightarrow> string \<Rightarrow> nat" where
  \<comment> \<open>the number of non-overlapping case-insensitive occurrences of a name in a text,
      counted from the left; the empty name occurs once at every position\<close>
  "count_occurrences name text =
     (if name = [] then length text + 1
      else if length text < length name then 0
      else if toLowerCase (take (length name) text) = toLowerCase name
           then 1 + count_occurrences name (drop (length name) text)
      else count_occurrences name (drop 1 text))"
  by pat_completeness auto
termination
  apply (relation "measure (\<lambda>(name, text). length text)")
    apply simp
   apply (case_tac name; simp; arith)
  apply (case_tac name; simp; arith)
  done

declare count_occurrences.simps [simp del]

section \<open>Rounding to a double\<close>

lemma two_powi_pos: "(0::rat) < 2 powi k"
  by (simp add: zero_less_power_int)

lemma of_int_two_power: "n \<ge> 0 \<Longrightarrow> (of_int (2 ^ nat n) :: rat) = 2 powi n"
  by (simp add: power_int_def)

lemma expo_bounds:
  assumes "x \<noteq> 0"
  shows "2 powi expo x \<le> \<bar>x\<bar>" and "\<bar>x\<bar> < 2 powi (expo x + 1)"
proof -
  obtain a b where q: "quotient_of x = (a, b)" by fastforce
  have b: "b > 0" using quotient_of_denom_pos [OF q] .
  have x: "x = of_int a / of_int b" using quotient_of_div [OF q] .
  have a: "a \<noteq> 0" using assms x by auto
  define la lb where "la = bitlen \<bar>a\<bar>" and "lb = bitlen b"
  have la: "2 ^ nat (la - 1) \<le> \<bar>a\<bar>" "\<bar>a\<bar> < 2 ^ nat la"
    using bitlen_bounds [of "\<bar>a\<bar>"] a by (auto simp: la_def)
  have lb: "2 ^ nat (lb - 1) \<le> b" "b < 2 ^ nat lb"
    using bitlen_bounds [of b] b by (auto simp: lb_def)
  have la1: "la \<ge> 1" using a by (auto simp: la_def bitlen_alt_def)
  have lb1: "lb \<ge> 1" using b by (auto simp: lb_def bitlen_alt_def)
  have ra1: "(2::rat) powi (la - 1) \<le> of_int \<bar>a\<bar>"
    using la(1) la1 of_int_two_power [of "la - 1"] by (metis diff_ge_0_iff_ge of_int_le_iff)
  have ra2: "(of_int \<bar>a\<bar> :: rat) < 2 powi la"
    using la(2) la1 of_int_two_power [of la] by (metis of_int_less_iff order_trans zero_le_one)
  have rb1: "(2::rat) powi (lb - 1) \<le> of_int b"
    using lb(1) lb1 of_int_two_power [of "lb - 1"] by (metis diff_ge_0_iff_ge of_int_le_iff)
  have rb2: "(of_int b :: rat) < 2 powi lb"
    using lb(2) lb1 of_int_two_power [of lb] by (metis of_int_less_iff order_trans zero_le_one)
  have bpos: "(0::rat) < of_int b" using b by simp
  have ax: "\<bar>x\<bar> = of_int \<bar>a\<bar> / of_int b" using x b by simp
  have up: "\<bar>x\<bar> < 2 powi (la - lb + 1)"
  proof -
    have "of_int \<bar>a\<bar> / of_int b < (2::rat) powi la / of_int b"
      using ra2 bpos by (simp add: divide_strict_right_mono)
    also have "\<dots> \<le> 2 powi la / 2 powi (lb - 1)"
      using rb1 two_powi_pos [of "lb - 1"] two_powi_pos [of la] bpos
      by (intro divide_left_mono mult_pos_pos) (auto simp: less_imp_le)
    also have "\<dots> = 2 powi (la - lb + 1)"
      by (simp add: power_int_diff [symmetric] algebra_simps)
    finally show ?thesis using ax by simp
  qed
  have lo: "2 powi (la - lb - 1) \<le> \<bar>x\<bar>"
  proof -
    have "(2::rat) powi (la - lb - 1) = 2 powi (la - 1) / 2 powi lb"
      by (simp add: power_int_diff [symmetric] algebra_simps)
    also have "\<dots> \<le> of_int \<bar>a\<bar> / 2 powi lb"
      using ra1 two_powi_pos [of lb] by (simp add: divide_right_mono)
    also have "\<dots> \<le> of_int \<bar>a\<bar> / of_int b"
      using rb2 bpos two_powi_pos [of lb] by (intro divide_left_mono mult_pos_pos) (auto simp: less_imp_le)
    finally show ?thesis using ax by simp
  qed
  have e: "expo x = (if 2 powi (la - lb) \<le> \<bar>x\<bar> then la - lb else la - lb - 1)"
    by (simp add: expo_def q la_def lb_def Let_def)
  show "2 powi expo x \<le> \<bar>x\<bar>" using lo e by auto
  show "\<bar>x\<bar> < 2 powi (expo x + 1)" using up e by auto
qed

lemma two_powi_mono: "a \<le> b \<Longrightarrow> (2::rat) powi a \<le> 2 powi b"
  by (simp add: power_int_increasing)

lemma expo_unique:
  assumes "2 powi e \<le> \<bar>x\<bar>" "\<bar>x\<bar> < 2 powi (e + 1)"
  shows "expo x = e"
proof -
  have x: "x \<noteq> 0"
  proof
    assume "x = 0"
    then have "(2::rat) powi e \<le> 0" using assms(1) by simp
    moreover have "(0::rat) < 2 powi e" by (rule two_powi_pos)
    ultimately show False by linarith
  qed
  note b = expo_bounds [OF x]
  have "\<not> expo x < e"
  proof
    assume "expo x < e"
    then have "(2::rat) powi (expo x + 1) \<le> 2 powi e" by (intro two_powi_mono) simp
    then show False using b(2) assms(1) by linarith
  qed
  moreover have "\<not> e < expo x"
  proof
    assume "e < expo x"
    then have "(2::rat) powi (e + 1) \<le> 2 powi expo x" by (intro two_powi_mono) simp
    then show False using b(1) assms(2) by linarith
  qed
  ultimately show ?thesis by simp
qed

lemma rhe_of_int: "round_half_even (of_int n) = n"
  by (simp add: round_half_even_def)

lemma rhe_bounds: "\<lfloor>r\<rfloor> \<le> round_half_even r" "round_half_even r \<le> \<lfloor>r\<rfloor> + 1"
  by (simp_all add: round_half_even_def Let_def)

lemma rhe_mono:
  assumes "r \<le> s"
  shows "round_half_even r \<le> round_half_even s"
proof (cases "\<lfloor>r\<rfloor> = \<lfloor>s\<rfloor>")
  case True
  then show ?thesis using assms by (auto simp: round_half_even_def Let_def)
next
  case False
  then have "\<lfloor>r\<rfloor> + 1 \<le> \<lfloor>s\<rfloor>" using floor_mono [OF assms] by linarith
  then show ?thesis using rhe_bounds(2) [of r] rhe_bounds(1) [of s] by linarith
qed

lemma rhe_err: "\<bar>of_int (round_half_even r) - r\<bar> \<le> 1/2"
proof -
  define f where "f = \<lfloor>r\<rfloor>"
  have b: "of_int f \<le> r" "r < of_int f + 1" unfolding f_def by linarith+
  consider "r - of_int f < 1/2" | "1/2 < r - of_int f" | "r - of_int f = 1/2" by linarith
  then show ?thesis
  proof cases
    case 1
    then have "round_half_even r = f" by (simp add: round_half_even_def Let_def f_def)
    then show ?thesis using 1 b by (simp add: abs_if)
  next
    case 2
    then have "round_half_even r = f + 1" by (simp add: round_half_even_def Let_def f_def)
    then show ?thesis using 2 b by (simp add: abs_if)
  next
    case 3
    then have "round_half_even r = f \<or> round_half_even r = f + 1"
      by (simp add: round_half_even_def Let_def f_def)
    then show ?thesis using 3 by (auto simp: abs_if)
  qed
qed

lemma rhe_neg: "round_half_even (- r) = - round_half_even r"
proof (cases "r = of_int \<lfloor>r\<rfloor>")
  case True
  then obtain n where "r = of_int n" ..
  then have "- r = of_int (- n)" by simp
  then show ?thesis using \<open>r = of_int n\<close> rhe_of_int by metis
next
  case False
  then have fl: "\<lfloor>- r\<rfloor> = - \<lfloor>r\<rfloor> - 1"
    by (metis ceiling_altdef ceiling_def minus_diff_eq minus_minus of_int_floor_cancel diff_minus_eq_add add.commute uminus_add_conv_diff)
  have d: "- r - of_int \<lfloor>- r\<rfloor> = 1 - (r - of_int \<lfloor>r\<rfloor>)" by (simp add: fl)
  have "0 \<le> r - of_int \<lfloor>r\<rfloor>" "r - of_int \<lfloor>r\<rfloor> < 1" by linarith+
  then show ?thesis
    unfolding round_half_even_def Let_def d
    by (auto simp add: fl)
qed

lemma fl_0: "fl 0 = 0"
  by (simp add: fl_def)

lemma expo_neg: "expo (- x) = expo x"
proof (cases "x = 0")
  case True
  then show ?thesis by simp
next
  case False
  show ?thesis using expo_bounds [OF False] by (intro expo_unique) simp_all
qed

lemma fl_neg: "fl (- x) = - fl x"
  by (simp add: fl_def expo_neg Let_def rhe_neg)

lemma ulp_scale: "(2::rat) powi e / 2 powi (e - 52) = 2 ^ 52" "(2::rat) powi (e + 1) / 2 powi (e - 52) = 2 ^ 53"
proof -
  have "(2::rat) powi e / 2 powi (e - 52) = 2 powi (e - (e - 52))"
    using power_int_diff [of "2::rat" e "e - 52"] by simp
  then show "(2::rat) powi e / 2 powi (e - 52) = 2 ^ 52" by simp
  have "(2::rat) powi (e + 1) / 2 powi (e - 52) = 2 powi (e + 1 - (e - 52))"
    using power_int_diff [of "2::rat" "e + 1" "e - 52"] by simp
  then show "(2::rat) powi (e + 1) / 2 powi (e - 52) = 2 ^ 53" by simp
qed

lemma rhe_numeral: "round_half_even (numeral n) = numeral n"
  using rhe_of_int [of "numeral n"] by simp

lemma fl_pos_bounds:
  assumes "0 < x"
  shows "2 powi expo x \<le> fl x" and "fl x \<le> 2 powi (expo x + 1)"
proof -
  define e where "e = expo x"
  define u :: rat where "u = 2 powi (e - 52)"
  have x0: "x \<noteq> 0" using assms by simp
  have u: "0 < u" unfolding u_def by (rule two_powi_pos)
  have b: "2 powi e \<le> x" "x < 2 powi (e + 1)"
    using expo_bounds [OF x0] assms by (simp_all add: e_def)
  have m1: "2 ^ 52 \<le> x / u"
    using divide_right_mono [OF b(1), of u] u by (simp add: u_def ulp_scale)
  have m2: "x / u \<le> 2 ^ 53"
    using divide_right_mono [of x "2 powi (e + 1)" u] b(2) u by (simp add: u_def ulp_scale)
  have r1: "2 ^ 52 \<le> round_half_even (x / u)"
    using rhe_mono [of "of_int (2 ^ 52)" "x / u"] m1 by (simp add: rhe_numeral)
  have r2: "round_half_even (x / u) \<le> 2 ^ 53"
    using rhe_mono [of "x / u" "of_int (2 ^ 53)"] m2 by (simp add: rhe_numeral)
  have f: "fl x = of_int (round_half_even (x / u)) * u"
    using x0 by (simp add: fl_def Let_def u_def e_def)
  have e1: "(2::rat) powi e = 2 ^ 52 * u"
    using ulp_scale(1) [of e] u by (simp add: u_def field_simps)
  have e2: "(2::rat) powi (e + 1) = 2 ^ 53 * u"
    using ulp_scale(2) [of e] u by (simp add: u_def field_simps)
  have "(2 ^ 52 :: rat) \<le> of_int (round_half_even (x / u))"
    using r1 by (metis of_int_le_iff of_int_numeral of_int_power)
  then show "2 powi expo x \<le> fl x"
    unfolding f e_def [symmetric] e1 using u by (simp add: mult_right_mono)
  have "of_int (round_half_even (x / u)) \<le> (2 ^ 53 :: rat)"
    using r2 by (metis of_int_le_iff of_int_numeral of_int_power)
  then show "fl x \<le> 2 powi (expo x + 1)"
    unfolding f e_def [symmetric] e2 using u by (simp add: mult_right_mono)
qed

lemma fl_pos: "0 < x \<Longrightarrow> 0 < fl x"
  using fl_pos_bounds(1) [of x] two_powi_pos [of "expo x"] by linarith

lemma fl_nonneg: "0 \<le> x \<Longrightarrow> 0 \<le> fl x"
  using fl_pos [of x] fl_0 by (cases "x = 0") (simp_all add: less_imp_le)

lemma fl_mono_pos:
  assumes "0 < x" "x \<le> y"
  shows "fl x \<le> fl y"
proof -
  have y: "0 < y" using assms by simp
  have x0: "x \<noteq> 0" and y0: "y \<noteq> 0" using assms by auto
  note bx = expo_bounds [OF x0] and by' = expo_bounds [OF y0]
  have le: "expo x \<le> expo y"
  proof (rule ccontr)
    assume "\<not> expo x \<le> expo y"
    then have "(2::rat) powi (expo y + 1) \<le> 2 powi expo x" by (intro two_powi_mono) simp
    then show False using bx(1) by'(2) assms by simp
  qed
  show ?thesis
  proof (cases "expo x = expo y")
    case True
    have u: "(0::rat) < 2 powi (expo y - 52)" by (rule two_powi_pos)
    have "x / 2 powi (expo y - 52) \<le> y / 2 powi (expo y - 52)"
      using assms(2) u by (simp add: divide_right_mono)
    then have "round_half_even (x / 2 powi (expo y - 52)) \<le> round_half_even (y / 2 powi (expo y - 52))"
      by (rule rhe_mono)
    then show ?thesis
      using x0 y0 u by (simp add: fl_def Let_def True mult_right_mono)
  next
    case False
    then have "expo x + 1 \<le> expo y" using le by simp
    then have "(2::rat) powi (expo x + 1) \<le> 2 powi expo y" by (rule two_powi_mono)
    then show ?thesis using fl_pos_bounds(2) [OF assms(1)] fl_pos_bounds(1) [OF y] by linarith
  qed
qed

lemma fl_mono:
  assumes "x \<le> y"
  shows "fl x \<le> fl y"
proof -
  consider "0 < x" | "x \<le> 0" "0 \<le> y" | "y < 0" by linarith
  then show ?thesis
  proof cases
    case 1
    then show ?thesis using assms by (rule fl_mono_pos)
  next
    case 2
    have "fl x \<le> 0" using fl_nonneg [of "- x"] 2(1) by (simp add: fl_neg)
    moreover have "0 \<le> fl y" using 2(2) by (rule fl_nonneg)
    ultimately show ?thesis by linarith
  next
    case 3
    have "fl (- y) \<le> fl (- x)" using 3 assms by (intro fl_mono_pos) simp_all
    then show ?thesis by (simp add: fl_neg)
  qed
qed

lemma two_powi_less_imp: "(2::rat) powi a < 2 powi b \<Longrightarrow> a < b"
  using two_powi_mono [of b a] by (cases "a < b") auto

lemma fl_exact_aux:
  assumes x: "x = of_int m * 2 powi k" and m: "\<bar>m\<bar> < 2 ^ 53"
  shows "fl x = x"
proof (cases "m = 0")
  case True
  then show ?thesis using x by (simp add: fl_0)
next
  case False
  have x0: "x \<noteq> 0" using False x by simp
  define e where "e = expo x"
  have "\<bar>x\<bar> = of_int \<bar>m\<bar> * 2 powi k" using x by (simp add: abs_mult)
  also have "\<dots> < 2 ^ 53 * 2 powi k"
  proof -
    have "(of_int \<bar>m\<bar> :: rat) < of_int (2 ^ 53)" using m by (simp only: of_int_less_iff)
    then show ?thesis using two_powi_pos [of k] by simp
  qed
  also have "\<dots> = 2 powi (53 + k)" by (simp add: power_int_add)
  finally have "\<bar>x\<bar> < 2 powi (53 + k)" .
  then have "(2::rat) powi e < 2 powi (53 + k)"
    using expo_bounds(1) [OF x0] by (simp add: e_def)
  then have j: "0 \<le> k - e + 52" using two_powi_less_imp [of e "53 + k"] by simp
  have "x / 2 powi (e - 52) = of_int m * (2 powi k / 2 powi (e - 52))" using x by simp
  also have "2 powi k / 2 powi (e - 52) = (2::rat) powi (k - e + 52)"
    using power_int_diff [of "2::rat" k "e - 52"] by (simp add: algebra_simps)
  also have "\<dots> = of_int (2 ^ nat (k - e + 52))" using j by (simp add: power_int_def)
  finally have q: "x / 2 powi (e - 52) = of_int (m * 2 ^ nat (k - e + 52))" by simp
  have "fl x = of_int (round_half_even (x / 2 powi (e - 52))) * 2 powi (e - 52)"
    using x0 by (simp add: fl_def Let_def e_def)
  also have "\<dots> = of_int (m * 2 ^ nat (k - e + 52)) * 2 powi (e - 52)"
    unfolding q rhe_of_int ..
  also have "\<dots> = x / 2 powi (e - 52) * 2 powi (e - 52)" unfolding q ..
  also have "\<dots> = x" using two_powi_pos [of "e - 52"] by simp
  finally show ?thesis .
qed

lemma fl_exact:
  assumes x: "x = of_int m * 2 powi k" and m: "\<bar>m\<bar> \<le> 2 ^ 53"
  shows "fl x = x"
proof (cases "\<bar>m\<bar> < 2 ^ 53")
  case True
  with x show ?thesis by (rule fl_exact_aux)
next
  case False
  then have "\<bar>m\<bar> = 2 ^ 53" using m by linarith
  then consider "m = 2 ^ 53" | "m = - (2 ^ 53)" by linarith
  then show ?thesis
  proof cases
    case 1
    have "x = of_int 1 * 2 powi (53 + k)"
      unfolding x 1 by (simp add: power_int_add)
    then show ?thesis by (rule fl_exact_aux) simp
  next
    case 2
    have "x = of_int (- 1) * 2 powi (53 + k)"
      unfolding x 2 by (simp add: power_int_add)
    then show ?thesis by (rule fl_exact_aux) simp
  qed
qed

lemma fl_of_int: "\<bar>n\<bar> \<le> 2 ^ 53 \<Longrightarrow> fl (of_int n) = of_int n"
  using fl_exact [of "of_int n" n 0] by simp

lemma fl_of_nat: "n \<le> 2 ^ 53 \<Longrightarrow> fl (of_nat n) = of_nat n"
  using fl_of_int [of "int n"] by simp

lemma fl_err: "\<bar>fl x - x\<bar> \<le> \<bar>x\<bar> / 2 ^ 53"
proof (cases "x = 0")
  case True
  then show ?thesis by (simp add: fl_0)
next
  case False
  define u :: rat where "u = 2 powi (expo x - 52)"
  have u: "0 < u" unfolding u_def by (rule two_powi_pos)
  have f: "fl x = of_int (round_half_even (x / u)) * u"
    using False by (simp add: fl_def Let_def u_def)
  have "fl x - x = (of_int (round_half_even (x / u)) - x / u) * u"
    using u by (simp add: f algebra_simps)
  then have "\<bar>fl x - x\<bar> = \<bar>of_int (round_half_even (x / u)) - x / u\<bar> * u"
    using u by (simp add: abs_mult)
  also have "\<dots> \<le> 1/2 * u" using rhe_err [of "x / u"] u by (intro mult_right_mono) simp_all
  also have "\<dots> = 2 powi expo x / 2 ^ 53"
    using ulp_scale(2) [of "expo x"] u by (simp add: u_def field_simps power_int_add)
  also have "\<dots> \<le> \<bar>x\<bar> / 2 ^ 53"
    using expo_bounds(1) [OF False] by (simp add: divide_right_mono)
  finally show ?thesis .
qed

section \<open>Bounds on the scores\<close>

lemma jadd_mono: "a \<le> a' \<Longrightarrow> b \<le> b' \<Longrightarrow> jadd a b \<le> jadd a' b'"
  unfolding jadd_def by (intro fl_mono) simp

lemma jsub_mono: "a \<le> a' \<Longrightarrow> b' \<le> b \<Longrightarrow> jsub a b \<le> jsub a' b'"
  unfolding jsub_def by (intro fl_mono) simp

lemma jmul_mono: "a \<le> a' \<Longrightarrow> 0 \<le> w \<Longrightarrow> jmul a w \<le> jmul a' w"
  unfolding jmul_def by (intro fl_mono mult_right_mono)

lemma jdiv_mono: "a \<le> a' \<Longrightarrow> 0 \<le> n \<Longrightarrow> jdiv a n \<le> jdiv a' n"
  unfolding jdiv_def by (intro fl_mono divide_right_mono)

lemma Math_round_mono: "x \<le> y \<Longrightarrow> Math_round x \<le> Math_round y"
  unfolding Math_round_def by (intro floor_mono) simp

lemma fl_numeral_small [simp]: "fl 1 = 1" "fl 2 = 2" "fl 100 = 100" "fl (- 1) = - 1"
  using fl_of_int [of 1] fl_of_int [of 2] fl_of_int [of 100] fl_of_int [of "- 1"] by simp_all

lemma fl_unit_interval: "0 \<le> x \<Longrightarrow> x \<le> 1 \<Longrightarrow> 0 \<le> fl x \<and> fl x \<le> 1"
  using fl_mono [of x 1] fl_nonneg [of x] by simp

lemma fl_sym_interval: "- 1 \<le> x \<Longrightarrow> x \<le> 1 \<Longrightarrow> - 1 \<le> fl x \<and> fl x \<le> 1"
  using fl_mono [of x 1] fl_mono [of "- 1" x] by simp

text \<open>A rate and its percentage.\<close>

lemma rate_bounds:
  assumes "k \<le> n" "0 < n"
  shows "0 \<le> jdiv (of_nat k) (of_nat n)" "jdiv (of_nat k) (of_nat n) \<le> 1"
proof -
  have "0 \<le> (of_nat k :: rat) / of_nat n" by simp
  moreover have "(of_nat k :: rat) / of_nat n \<le> 1" using assms by simp
  ultimately show "0 \<le> jdiv (of_nat k) (of_nat n)" "jdiv (of_nat k) (of_nat n) \<le> 1"
    unfolding jdiv_def using fl_unit_interval by blast+
qed

lemma percent_bounds:
  assumes "0 \<le> x" "x \<le> 1"
  shows "0 \<le> jmul x 100" "jmul x 100 \<le> 100"
proof -
  show "0 \<le> jmul x 100" unfolding jmul_def using assms by (intro fl_nonneg) simp
  have "jmul x 100 \<le> fl 100" unfolding jmul_def using assms by (intro fl_mono) simp
  then show "jmul x 100 \<le> 100" by simp
qed

lemma Math_round_percent:
  assumes "0 \<le> y" "y \<le> 100"
  shows "0 \<le> Math_round y" "Math_round y \<le> 100"
proof -
  show "0 \<le> Math_round y" unfolding Math_round_def using assms by simp
  have "y + 1/2 < of_int 100 + 1" using assms by simp
  then show "Math_round y \<le> 100" unfolding Math_round_def by (simp only: floor_le_iff)
qed

lemma rate_score_bounds:
  assumes "0 < length xs"
  shows "0 \<le> Math_round (jmul (jdiv (count_where P xs) (of_nat (length xs))) 100)"
    and "Math_round (jmul (jdiv (count_where P xs) (of_nat (length xs))) 100) \<le> 100"
proof -
  have "length (filter P xs) \<le> length xs" by simp
  note r = rate_bounds [OF this assms]
  note p = percent_bounds [OF r]
  show "0 \<le> Math_round (jmul (jdiv (count_where P xs) (of_nat (length xs))) 100)"
    "Math_round (jmul (jdiv (count_where P xs) (of_nat (length xs))) 100) \<le> 100"
    unfolding count_where_def using Math_round_percent [OF p] by simp_all
qed

text \<open>The running sum of \<open>reduce\<close>.\<close>

lemma fl_2_53_1: "fl (2 ^ 53 + 1) = 2 ^ 53"
  by code_simp

lemma sum_step:
  assumes s: "\<bar>s\<bar> \<le> of_nat (min k (2 ^ 53))" and x: "\<bar>x\<bar> \<le> 1"
  shows "\<bar>jadd s x\<bar> \<le> of_nat (min (Suc k) (2 ^ 53))"
proof -
  define B where "B = min k (2 ^ 53)"
  have B: "B \<le> 2 ^ 53" by (simp add: B_def)
  have up: "s + x \<le> of_nat B + 1" and lo: "- (of_nat B + 1) \<le> s + x"
    using s x by (simp_all add: B_def abs_le_iff)
  have top: "fl (of_nat B + 1) \<le> of_nat (min (Suc k) (2 ^ 53))"
  proof (cases "k < 2 ^ 53")
    case True
    then have "B = k" by (simp add: B_def)
    moreover have "fl (of_nat (Suc k)) = of_nat (Suc k)" using True by (intro fl_of_nat) simp
    ultimately show ?thesis using True by (simp add: add.commute)
  next
    case False
    then have "B = 2 ^ 53" by (simp add: B_def)
    then show ?thesis using False fl_2_53_1 by simp
  qed
  have "fl (s + x) \<le> fl (of_nat B + 1)" using up by (rule fl_mono)
  moreover have "- fl (of_nat B + 1) \<le> fl (s + x)"
    using fl_mono [OF lo] by (simp only: fl_neg)
  ultimately show ?thesis using top unfolding jadd_def by (simp add: abs_le_iff)
qed

lemma reduce_sum_bound:
  assumes "\<forall>a \<in> set xs. \<bar>f a\<bar> \<le> 1" and "\<bar>s\<bar> \<le> of_nat (min k (2 ^ 53))"
  shows "\<bar>foldl (\<lambda>sum a. jadd sum (f a)) s xs\<bar> \<le> of_nat (min (k + length xs) (2 ^ 53))"
  using assms
proof (induction xs arbitrary: s k)
  case Nil
  then show ?case by simp
next
  case (Cons a xs)
  have "\<bar>jadd s (f a)\<bar> \<le> of_nat (min (Suc k) (2 ^ 53))"
    using Cons.prems by (intro sum_step) simp_all
  then have "\<bar>foldl (\<lambda>sum a. jadd sum (f a)) (jadd s (f a)) xs\<bar>
       \<le> of_nat (min (Suc k + length xs) (2 ^ 53))"
    using Cons.prems by (intro Cons.IH) simp_all
  then show ?case by simp
qed

lemma reduce_sum_nonneg:
  assumes "\<forall>a \<in> set xs. 0 \<le> f a" and "0 \<le> s"
  shows "0 \<le> foldl (\<lambda>sum a. jadd sum (f a)) s xs"
  using assms
proof (induction xs arbitrary: s)
  case Nil
  then show ?case by simp
next
  case (Cons a xs)
  have "0 \<le> jadd s (f a)" unfolding jadd_def using Cons.prems by (intro fl_nonneg) simp
  then show ?case using Cons.prems by (simp add: Cons.IH)
qed

lemma average_bounds:
  assumes "\<forall>a \<in> set xs. \<bar>f a\<bar> \<le> 1" and "0 < length xs"
  shows "- 1 \<le> jdiv (foldl (\<lambda>sum a. jadd sum (f a)) 0 xs) (of_nat (length xs))"
    and "jdiv (foldl (\<lambda>sum a. jadd sum (f a)) 0 xs) (of_nat (length xs)) \<le> 1"
proof -
  define S where "S = foldl (\<lambda>sum a. jadd sum (f a)) 0 xs"
  have "\<bar>S\<bar> \<le> of_nat (min (0 + length xs) (2 ^ 53))"
    unfolding S_def using assms(1) by (intro reduce_sum_bound) simp_all
  also have "\<dots> \<le> of_nat (length xs)" by simp
  finally have "\<bar>S\<bar> \<le> of_nat (length xs)" .
  then have "S \<le> 1 * of_nat (length xs)" "- 1 * of_nat (length xs) \<le> S"
    by (simp_all add: abs_le_iff)
  then have "- 1 \<le> S / of_nat (length xs)" "S / of_nat (length xs) \<le> 1"
    using assms(2) by (simp_all only: pos_divide_le_eq pos_le_divide_eq of_nat_0_less_iff)
  then show "- 1 \<le> jdiv (foldl (\<lambda>sum a. jadd sum (f a)) 0 xs) (of_nat (length xs))"
    "jdiv (foldl (\<lambda>sum a. jadd sum (f a)) 0 xs) (of_nat (length xs)) \<le> 1"
    unfolding jdiv_def S_def [symmetric] using fl_sym_interval by blast+
qed

lemma average_nonneg:
  assumes "\<forall>a \<in> set xs. 0 \<le> f a"
  shows "0 \<le> jdiv (foldl (\<lambda>sum a. jadd sum (f a)) 0 xs) (of_nat (length xs))"
  unfolding jdiv_def using reduce_sum_nonneg [OF assms, of 0] by (intro fl_nonneg) simp

lemma jadd_nonneg: "0 \<le> a \<Longrightarrow> 0 \<le> b \<Longrightarrow> 0 \<le> jadd a b"
  unfolding jadd_def by (intro fl_nonneg) simp

lemma jmul_nonneg: "0 \<le> a \<Longrightarrow> 0 \<le> b \<Longrightarrow> 0 \<le> jmul a b"
  unfolding jmul_def by (intro fl_nonneg) simp

lemma Math_round_nonneg: "0 \<le> x \<Longrightarrow> 0 \<le> Math_round x"
  unfolding Math_round_def by simp

lemma trust_formula_top: "trust_formula 100 0 100 100 = 100"
  by code_simp

lemma overall_formula_top: "overall_formula 100 100 100 100 100 100 = 100"
  by code_simp

lemma trust_formula_bounds:
  assumes "0 \<le> s" "s \<le> 100" "0 \<le> hr" "hr \<le> 1" "0 \<le> r" "r \<le> 100" "0 \<le> nn" "nn \<le> 100"
  shows "0 \<le> trust_formula s hr r nn" and "trust_formula s hr r nn \<le> 100"
proof -
  have d: "0 \<le> jsub 100 (jmul hr 100)"
    unfolding jsub_def using percent_bounds(2) [OF assms(3,4)] by (intro fl_nonneg) simp
  show "0 \<le> trust_formula s hr r nn"
    unfolding trust_formula_def using assms d
    by (intro Math_round_nonneg jadd_nonneg jmul_nonneg fl_nonneg) simp_all
  have "trust_formula s hr r nn \<le> trust_formula 100 0 100 100"
    unfolding trust_formula_def using assms
    by (intro Math_round_mono jadd_mono jmul_mono jsub_mono fl_nonneg) simp_all
  then show "trust_formula s hr r nn \<le> 100" by (simp only: trust_formula_top)
qed

lemma overall_formula_bounds:
  assumes "0 \<le> t" "t \<le> 100" "0 \<le> v" "v \<le> 100" "0 \<le> r" "r \<le> 100"
    "0 \<le> c" "c \<le> 100" "0 \<le> s" "s \<le> 100" "0 \<le> cf" "cf \<le> 100"
  shows "0 \<le> overall_formula t v r c s cf" and "overall_formula t v r c s cf \<le> 100"
proof -
  show "0 \<le> overall_formula t v r c s cf"
    unfolding overall_formula_def using assms
    by (intro Math_round_nonneg jadd_nonneg jmul_nonneg fl_nonneg) simp_all
  have "overall_formula t v r c s cf \<le> overall_formula 100 100 100 100 100 100"
    unfolding overall_formula_def using assms
    by (intro Math_round_mono jadd_mono jmul_mono fl_nonneg) simp_all
  then show "overall_formula t v r c s cf \<le> 100" by (simp only: overall_formula_top)
qed

lemma sentiment_score_range:
  assumes "\<forall>a \<in> set xs. \<bar>sentimentScore a\<bar> \<le> 1" "0 < length xs"
  shows "0 \<le> Math_round (jmul (jdiv (jadd (jdiv (foldl (\<lambda>sum a. jadd sum (sentimentScore a)) 0 xs)
                                             (of_nat (length xs))) 1) 2) 100)"
    and "Math_round (jmul (jdiv (jadd (jdiv (foldl (\<lambda>sum a. jadd sum (sentimentScore a)) 0 xs)
                                             (of_nat (length xs))) 1) 2) 100) \<le> 100"
proof -
  define avg where "avg = jdiv (foldl (\<lambda>sum a. jadd sum (sentimentScore a)) 0 xs) (of_nat (length xs))"
  have avg: "- 1 \<le> avg" "avg \<le> 1"
    unfolding avg_def using average_bounds [OF assms] by simp_all
  have p: "0 \<le> jadd avg 1" "jadd avg 1 \<le> 2"
  proof -
    show "0 \<le> jadd avg 1" unfolding jadd_def using avg by (intro fl_nonneg) simp
    have "jadd avg 1 \<le> fl 2" unfolding jadd_def using avg by (intro fl_mono) simp
    then show "jadd avg 1 \<le> 2" by simp
  qed
  have h: "0 \<le> jdiv (jadd avg 1) 2" "jdiv (jadd avg 1) 2 \<le> 1"
  proof -
    show "0 \<le> jdiv (jadd avg 1) 2" unfolding jdiv_def using p by (intro fl_nonneg) simp
    have "jdiv (jadd avg 1) 2 \<le> fl 1" unfolding jdiv_def using p by (intro fl_mono) simp
    then show "jdiv (jadd avg 1) 2 \<le> 1" by simp
  qed
  note Math_round_percent [OF percent_bounds [OF h]]
  then show "0 \<le> Math_round (jmul (jdiv (jadd (jdiv (foldl (\<lambda>sum a. jadd sum (sentimentScore a)) 0 xs)
                                             (of_nat (length xs))) 1) 2) 100)"
    and "Math_round (jmul (jdiv (jadd (jdiv (foldl (\<lambda>sum a. jadd sum (sentimentScore a)) 0 xs)
                                             (of_nat (length xs))) 1) 2) 100) \<le> 100"
    unfolding avg_def by simp_all
qed

lemma confidence_score_range:
  assumes "\<forall>a \<in> set xs. 0 \<le> confidenceScore a \<and> confidenceScore a \<le> 1" "0 < length xs"
  shows "0 \<le> Math_round (jmul (jdiv (foldl (\<lambda>sum a. jadd sum (confidenceScore a)) 0 xs)
                                     (of_nat (length xs))) 100)"
    and "Math_round (jmul (jdiv (foldl (\<lambda>sum a. jadd sum (confidenceScore a)) 0 xs)
                                     (of_nat (length xs))) 100) \<le> 100"
proof -
  have a: "\<forall>a \<in> set xs. \<bar>confidenceScore a\<bar> \<le> 1" using assms(1) by (simp add: abs_le_iff)
  have n: "\<forall>a \<in> set xs. 0 \<le> confidenceScore a" using assms(1) by simp
  note Math_round_percent [OF percent_bounds [OF average_nonneg [OF n] average_bounds(2) [OF a assms(2)]]]
  then show "0 \<le> Math_round (jmul (jdiv (foldl (\<lambda>sum a. jadd sum (confidenceScore a)) 0 xs)
                                     (of_nat (length xs))) 100)"
    and "Math_round (jmul (jdiv (foldl (\<lambda>sum a. jadd sum (confidenceScore a)) 0 xs)
                                     (of_nat (length xs))) 100) \<le> 100"
    by simp_all
qed

lemma calculateScores_nonempty:
  assumes "xs \<noteq> []"
  shows "ai_visibility_score (calculateScores xs)
           = Math_round (jmul (jdiv (count_where mentioned xs) (of_nat (length xs))) 100)"
    and "sentiment_score (calculateScores xs)
           = Math_round (jmul (jdiv (jadd (jdiv (foldl (\<lambda>sum a. jadd sum (sentimentScore a)) 0 xs)
                                             (of_nat (length xs))) 1) 2) 100)"
    and "confidence_score (calculateScores xs)
           = Math_round (jmul (jdiv (foldl (\<lambda>sum a. jadd sum (confidenceScore a)) 0 xs)
                                     (of_nat (length xs))) 100)"
    and "ai_recommendation_score (calculateScores xs)
           = Math_round (jmul (jdiv (count_where isRecommended xs) (of_nat (length xs))) 100)"
    and "ai_citation_score (calculateScores xs)
           = Math_round (jmul (jdiv (count_where (\<lambda>a. truthy (citedUrl a)) xs) (of_nat (length xs))) 100)"
    and "ai_trust_score (calculateScores xs)
           = trust_formula (sentiment_score (calculateScores xs))
               (jdiv (count_where hasHedging xs) (of_nat (length xs)))
               (ai_recommendation_score (calculateScores xs))
               (jmul (jdiv (count_where (\<lambda>a. mentionType a \<noteq> NEGATIVE_MENTION) xs)
                           (of_nat (length xs))) 100)"
    and "overall_score (calculateScores xs)
           = overall_formula (ai_trust_score (calculateScores xs))
               (ai_visibility_score (calculateScores xs))
               (ai_recommendation_score (calculateScores xs))
               (ai_citation_score (calculateScores xs))
               (sentiment_score (calculateScores xs))
               (confidence_score (calculateScores xs))"
  using assms by (simp_all add: calculateScores_def Let_def)

lemma calculateScores_bounds:
  assumes "\<forall>a \<in> set xs. \<bar>sentimentScore a\<bar> \<le> 1 \<and> 0 \<le> confidenceScore a \<and> confidenceScore a \<le> 1"
  shows "in_percent (ai_visibility_score (calculateScores xs))"
    and "in_percent (sentiment_score (calculateScores xs))"
    and "in_percent (confidence_score (calculateScores xs))"
    and "in_percent (ai_recommendation_score (calculateScores xs))"
    and "in_percent (ai_citation_score (calculateScores xs))"
    and "in_percent (ai_trust_score (calculateScores xs))"
    and "in_percent (overall_score (calculateScores xs))"
proof -
  have all: "in_percent (ai_visibility_score (calculateScores xs)) \<and>
      in_percent (sentiment_score (calculateScores xs)) \<and>
      in_percent (confidence_score (calculateScores xs)) \<and>
      in_percent (ai_recommendation_score (calculateScores xs)) \<and>
      in_percent (ai_citation_score (calculateScores xs)) \<and>
      in_percent (ai_trust_score (calculateScores xs)) \<and>
      in_percent (overall_score (calculateScores xs))"
  proof (cases "xs = []")
    case True
    then show ?thesis by (simp add: calculateScores_def in_percent_def)
  next
    case False
    then have n: "0 < length xs" by simp
    note eq = calculateScores_nonempty [OF False]
    have s1: "\<forall>a \<in> set xs. \<bar>sentimentScore a\<bar> \<le> 1" using assms by simp
    have c1: "\<forall>a \<in> set xs. 0 \<le> confidenceScore a \<and> confidenceScore a \<le> 1" using assms by simp
    have v: "in_percent (ai_visibility_score (calculateScores xs))"
      unfolding eq(1) in_percent_def using rate_score_bounds [OF n] by simp
    have s: "in_percent (sentiment_score (calculateScores xs))"
      unfolding eq(2) in_percent_def using sentiment_score_range [OF s1 n] by simp
    have cf: "in_percent (confidence_score (calculateScores xs))"
      unfolding eq(3) in_percent_def using confidence_score_range [OF c1 n] by simp
    have r: "in_percent (ai_recommendation_score (calculateScores xs))"
      unfolding eq(4) in_percent_def using rate_score_bounds [OF n] by simp
    have c: "in_percent (ai_citation_score (calculateScores xs))"
      unfolding eq(5) in_percent_def using rate_score_bounds [OF n] by simp
    have hr: "0 \<le> jdiv (count_where hasHedging xs) (of_nat (length xs))"
       "jdiv (count_where hasHedging xs) (of_nat (length xs)) \<le> 1"
      unfolding count_where_def using rate_bounds [OF _ n, of "length (filter hasHedging xs)"] by simp_all
    have nn: "0 \<le> jmul (jdiv (count_where (\<lambda>a. mentionType a \<noteq> NEGATIVE_MENTION) xs) (of_nat (length xs))) 100"
       "jmul (jdiv (count_where (\<lambda>a. mentionType a \<noteq> NEGATIVE_MENTION) xs) (of_nat (length xs))) 100 \<le> 100"
      unfolding count_where_def
      using percent_bounds [OF rate_bounds [OF _ n, of "length (filter (\<lambda>a. mentionType a \<noteq> NEGATIVE_MENTION) xs)"]]
      by simp_all
    have t: "in_percent (ai_trust_score (calculateScores xs))"
      unfolding eq(6) in_percent_def
      using trust_formula_bounds [OF _ _ hr _ _ nn] s r by (simp add: in_percent_def)
    have o: "in_percent (overall_score (calculateScores xs))"
      unfolding eq(7) in_percent_def
      using overall_formula_bounds t v r c s cf by (simp add: in_percent_def)
    show ?thesis using v s cf r c t o by simp
  qed
  then show "in_percent (ai_visibility_score (calculateScores xs))"
    and "in_percent (sentiment_score (calculateScores xs))"
    and "in_percent (confidence_score (calculateScores xs))"
    and "in_percent (ai_recommendation_score (calculateScores xs))"
    and "in_percent (ai_citation_score (calculateScores xs))"
    and "in_percent (ai_trust_score (calculateScores xs))"
    and "in_percent (overall_score (calculateScores xs))"
    by simp_all
qed

lemma sentiment_score_of_range: "\<bar>sentiment_score_of p n\<bar> \<le> 1"
proof -
  have m: "(0::rat) < of_nat (max 1 (p + n))" by simp
  have "\<bar>rat_of_int (int p - int n)\<bar> \<le> of_nat (max 1 (p + n))"
    by (simp add: abs_le_iff max_def) 
  then have "\<bar>rat_of_int (int p - int n) / of_nat (max 1 (p + n))\<bar> \<le> 1"
    using m by (simp only: abs_divide abs_of_nat) (simp add: pos_divide_le_eq)
  then have "- 1 \<le> rat_of_int (int p - int n) / of_nat (max 1 (p + n))"
     "rat_of_int (int p - int n) / of_nat (max 1 (p + n)) \<le> 1"
    by (simp_all only: abs_le_iff) linarith+
  then show ?thesis
    unfolding sentiment_score_of_def jdiv_def using fl_sym_interval by (simp add: abs_le_iff)
qed

lemma confidence_score_of_range: "0 \<le> confidence_score_of p h" "confidence_score_of p h \<le> 1"
  by (simp_all add: confidence_score_of_def)

section \<open>The error of the confidence score\<close>

lemma fl_err_bound:
  assumes "\<bar>x\<bar> \<le> M"
  shows "fl x \<le> x + M / 2 ^ 53" and "x - M / 2 ^ 53 \<le> fl x"
proof -
  have "\<bar>fl x - x\<bar> \<le> \<bar>x\<bar> / 2 ^ 53" by (rule fl_err)
  also have "\<dots> \<le> M / 2 ^ 53" using assms by (simp add: divide_right_mono)
  finally have "\<bar>fl x - x\<bar> \<le> M / 2 ^ 53" .
  then show "fl x \<le> x + M / 2 ^ 53" and "x - M / 2 ^ 53 \<le> fl x"
    unfolding abs_le_iff by linarith+
qed

lemma tenth: "fl (1/10) = 3602879701896397 / 36028797018963968"
  by code_simp

lemma half: "fl (1/2) = 1/2"
  by code_simp

lemma clamp_lipschitz:
  fixes x y :: rat
  shows "\<bar>max 0 (min 1 x) - max 0 (min 1 y)\<bar> \<le> \<bar>x - y\<bar>"
  by (simp add: max_def min_def abs_if)

lemma conf_err:
  assumes "p \<le> 13" "h \<le> 15"
  shows "\<bar>confidence_score_of p h - spec_confidence p h\<bar> \<le> 1 / 2 ^ 49"
proof -
  define P :: rat where "P = of_nat p"
  define H :: rat where "H = of_nat h"
  have P: "0 \<le> P" "P \<le> 13" and H: "0 \<le> H" "H \<le> 15"
    using assms by (simp_all add: P_def H_def)
  define a where "a = fl (P * (3602879701896397 / 36028797018963968))"
  define b where "b = fl (1/2 + a)"
  define c where "c = fl (H * (3602879701896397 / 36028797018963968))"
  define d where "d = fl (b - c)"
  have a: "a \<le> P * (3602879701896397 / 36028797018963968) + 2 / 2 ^ 53"
          "P * (3602879701896397 / 36028797018963968) - 2 / 2 ^ 53 \<le> a"
    unfolding a_def using P by (intro fl_err_bound; simp add: abs_le_iff)+
  have b: "b \<le> 1/2 + a + 2 / 2 ^ 53" "1/2 + a - 2 / 2 ^ 53 \<le> b"
    unfolding b_def using a P by (intro fl_err_bound; simp add: abs_le_iff)+
  have c: "c \<le> H * (3602879701896397 / 36028797018963968) + 2 / 2 ^ 53"
          "H * (3602879701896397 / 36028797018963968) - 2 / 2 ^ 53 \<le> c"
    unfolding c_def using H by (intro fl_err_bound; simp add: abs_le_iff)+
  have d: "d \<le> b - c + 2 / 2 ^ 53" "b - c - 2 / 2 ^ 53 \<le> d"
    unfolding d_def using a b c P H by (intro fl_err_bound; simp add: abs_le_iff)+
  have "d - (1/2 + P / 10 - H / 10) \<le> 1 / 2 ^ 49" "- (d - (1/2 + P / 10 - H / 10)) \<le> 1 / 2 ^ 49"
    using a b c d P H by simp_all
  then have "\<bar>d - (1/2 + P / 10 - H / 10)\<bar> \<le> 1 / 2 ^ 49"
    unfolding abs_le_iff by simp
  moreover have "confidence_score_of p h = max 0 (min 1 d)"
    by (simp add: confidence_score_of_def jsub_def jadd_def jmul_def tenth half
        d_def b_def a_def c_def P_def H_def)
  moreover have "spec_confidence p h = max 0 (min 1 (1/2 + P / 10 - H / 10))"
    by (simp add: spec_confidence_def P_def H_def)
  ultimately show ?thesis
    using clamp_lipschitz [of d "1/2 + P / 10 - H / 10"] by linarith
qed

lemma hits_length: "length (hits lexicon t) \<le> length lexicon"
  by (simp add: hits_def)

lemma conf_1_2: "confidence_score_of 1 2 = 7205759403792793 / 18014398509481984"
  by code_simp

section \<open>Strings and patterns\<close>

lemma RegExp_escape: "RegExp (escapeRegExp s) = Some (map Lit s)"
proof (induction s)
  case Nil
  show ?case by (simp add: escapeRegExp_def)
next
  case (Cons c s)
  have tl: "escapeRegExp (c # s) =
      (if c \<in> set syntax_chars then [backslash, c] else [c]) @ escapeRegExp s"
    by (simp add: escapeRegExp_def)
  show ?case
  proof (cases "c \<in> set syntax_chars")
    case True
    then show ?thesis using Cons tl by simp
  next
    case False
    then show ?thesis using Cons tl
      by (cases "escapeRegExp s") (auto simp: syntax_chars_def backslash_def)
  qed
qed

lemma str_includes_Nil: "str_includes s []"
  by (cases s) simp_all

lemma case_fold_nat:
  fixes a b :: nat
  shows "((if 97 \<le> a \<and> a \<le> 122 then a - 32 else a) = (if 97 \<le> b \<and> b \<le> 122 then b - 32 else b))
     \<longleftrightarrow> ((if 65 \<le> a \<and> a \<le> 90 then a + 32 else a) = (if 65 \<le> b \<and> b \<le> 90 then b + 32 else b))"
  by (simp split: if_splits) arith

lemma of_char_canonicalize:
  "(of_char (canonicalize c) :: nat) =
     (if (97::nat) \<le> of_char c \<and> (of_char c :: nat) \<le> 122 then of_char c - 32 else of_char c)"
proof -
  have "(of_char c :: nat) < 256" by (rule nat_of_char_less_256)
  then show ?thesis by (auto simp add: canonicalize_def Let_def)
qed

lemma of_char_toLowerCase_char:
  "(of_char (toLowerCase_char c) :: nat) =
     (if (65::nat) \<le> of_char c \<and> (of_char c :: nat) \<le> 90 then of_char c + 32 else of_char c)"
  by (simp add: toLowerCase_char_def Let_def)

lemma canonicalize_eq_iff:
  "canonicalize c = canonicalize d \<longleftrightarrow> toLowerCase_char c = toLowerCase_char d"
proof -
  have "canonicalize c = canonicalize d \<longleftrightarrow>
        (of_char (canonicalize c) :: nat) = of_char (canonicalize d)"
    by simp
  also have "\<dots> \<longleftrightarrow> (of_char (toLowerCase_char c) :: nat) = of_char (toLowerCase_char d)"
    unfolding of_char_canonicalize of_char_toLowerCase_char by (rule case_fold_nat)
  also have "\<dots> \<longleftrightarrow> toLowerCase_char c = toLowerCase_char d"
    by simp
  finally show ?thesis .
qed

lemma toLowerCase_char_idem: "toLowerCase_char (toLowerCase_char c) = toLowerCase_char c"
  unfolding toLowerCase_char_def Let_def by (auto simp: of_char_of)

lemma match_here_Lit:
  "match_here (map Lit (toLowerCase n)) s \<longleftrightarrow> prefix (toLowerCase n) (toLowerCase s)"
proof (induction n arbitrary: s)
  case Nil
  show ?case by (simp add: toLowerCase_def)
next
  case (Cons c n)
  show ?case
  proof (cases s)
    case Nil
    then show ?thesis by (simp add: toLowerCase_def)
  next
    case (Cons d s')
    then show ?thesis
      using Cons.IH [of s']
      by (simp add: toLowerCase_def canonicalize_eq_iff toLowerCase_char_idem eq_commute)
  qed
qed



lemma or_empty_match_g: "or_empty (match_g t re) = exec_all re 0 t"
  by (simp add: or_empty_def match_g_def Let_def)

section \<open>The fields of an analysis\<close>

lemma analyzeResponse_fields:
  "\<exists>a. analyzeResponse t b cs = Some a
     \<and> mentioned a = str_includes (toLowerCase t) (toLowerCase b)
     \<and> mentionCount a = length (exec_all (map Lit (toLowerCase b)) 0 t)
     \<and> mentionContext a =
           (if str_includes (toLowerCase t) (toLowerCase b) then mention_context t b else [])
     \<and> mentionType a =
           (if \<not> str_includes (toLowerCase t) (toLowerCase b) then ABSENT
            else if length (hits NEGATIVE_INDICATORS t) \<ge> 2 then NEGATIVE_MENTION
            else if length (exec_all (map Lit (toLowerCase b)) 0 t) \<ge> 3 then PRIMARY
            else if length (exec_all (map Lit (toLowerCase b)) 0 t) \<ge> 2 then FEATURED
            else if list_ex (\<lambda>c. str_includes (toLowerCase t) (toLowerCase c)) cs
                 then COMPARISON
            else BRIEF)
     \<and> sentiment a =
           sentiment_of (length (hits POSITIVE_INDICATORS t)) (length (hits NEGATIVE_INDICATORS t))
     \<and> sentimentScore a =
           sentiment_score_of (length (hits POSITIVE_INDICATORS t))
                              (length (hits NEGATIVE_INDICATORS t))
     \<and> confidenceScore a =
           confidence_score_of (length (hits POSITIVE_INDICATORS t))
                               (length (hits HEDGING_WORDS t))
     \<and> hasHedging a = (2 \<le> length (hits HEDGING_WORDS t))
     \<and> isRecommended a =
           (0 < length (hits RECOMMENDATION_PHRASES t) \<and>
            sentiment_of (length (hits POSITIVE_INDICATORS t))
                         (length (hits NEGATIVE_INDICATORS t)) \<noteq> NEGATIVE)
     \<and> recommendationStrength a =
           (if length (hits RECOMMENDATION_PHRASES t) \<ge> 2 then STRONG
            else if length (hits RECOMMENDATION_PHRASES t) = 1 then MODERATE else NONE)"
  by (simp add: analyzeResponse_def RegExp_escape Let_def or_empty_match_g hits_def
        sentiment_of_def)

section \<open>The weighted sums against the exact formulas\<close>

lemma round_close:
  assumes "x - y < 1" "y - x < 1" "0 \<le> y"
  shows "\<bar>Math_round x - spec_round y\<bar> \<le> 1"
proof -
  have "\<lfloor>x + 1/2\<rfloor> \<le> \<lfloor>y + 1/2\<rfloor> + 1"
  proof -
    have "x + 1/2 < (y + 1/2) + 1" using assms by simp
    also have "\<dots> < of_int (\<lfloor>y + 1/2\<rfloor> + 1) + 1" by linarith
    finally have "\<lfloor>x + 1/2\<rfloor> < \<lfloor>y + 1/2\<rfloor> + 1 + 1" by (simp only: floor_less_iff)
    then show ?thesis by simp
  qed
  moreover have "\<lfloor>y + 1/2\<rfloor> \<le> \<lfloor>x + 1/2\<rfloor> + 1"
  proof -
    have "y + 1/2 < (x + 1/2) + 1" using assms by simp
    also have "\<dots> < of_int (\<lfloor>x + 1/2\<rfloor> + 1) + 1" by linarith
    finally have "\<lfloor>y + 1/2\<rfloor> < \<lfloor>x + 1/2\<rfloor> + 1 + 1" by (simp only: floor_less_iff)
    then show ?thesis by simp
  qed
  ultimately show ?thesis using assms(3) by (simp add: Math_round_def spec_round_def)
qed

lemma W35: "fl (35/100) = 3152519739159347 / 9007199254740992" by code_simp
lemma W30: "fl (30/100) = 5404319552844595 / 18014398509481984" by code_simp
lemma W25: "fl (25/100) = 1 / 4" by code_simp
lemma W20: "fl (20/100) = 3602879701896397 / 18014398509481984" by code_simp
lemma W15: "fl (15/100) = 5404319552844595 / 36028797018963968" by code_simp
lemma W10: "fl (10/100) = 3602879701896397 / 36028797018963968" by code_simp

text \<open>A rate and its percentage, against the exact quotient.\<close>

lemma rate_err:
  assumes "k \<le> n" "0 < n"
  shows "jdiv (of_nat k) (of_nat n) \<le> of_nat k / of_nat n + 1 / 2 ^ 53"
    and "of_nat k / of_nat n - 1 / 2 ^ 53 \<le> jdiv (of_nat k) (of_nat n)"
proof -
  have "\<bar>(of_nat k :: rat) / of_nat n\<bar> \<le> 1" using assms by simp
  from fl_err_bound [OF this] show "jdiv (of_nat k) (of_nat n) \<le> of_nat k / of_nat n + 1 / 2 ^ 53"
    and "of_nat k / of_nat n - 1 / 2 ^ 53 \<le> jdiv (of_nat k) (of_nat n)"
    unfolding jdiv_def by simp_all
qed

lemma percent_err:
  assumes "k \<le> n" "0 < n"
  shows "jmul (jdiv (of_nat k) (of_nat n)) 100 \<le> 100 * of_nat k / of_nat n + 1 / 2 ^ 44"
    and "100 * of_nat k / of_nat n - 1 / 2 ^ 44 \<le> jmul (jdiv (of_nat k) (of_nat n)) 100"
proof -
  define q :: rat where "q = of_nat k / of_nat n"
  define q' where "q' = jdiv (of_nat k) (of_nat n)"
  have q: "0 \<le> q" "q \<le> 1" using assms by (simp_all add: q_def)
  have q': "q' \<le> q + 1 / 2 ^ 53" "q - 1 / 2 ^ 53 \<le> q'"
    unfolding q'_def q_def using rate_err [OF assms] by simp_all
  have "\<bar>q' * 100\<bar> \<le> 128" using q q' by (simp add: abs_le_iff)
  from fl_err_bound [OF this] have "jmul q' 100 \<le> q' * 100 + 128 / 2 ^ 53"
    "q' * 100 - 128 / 2 ^ 53 \<le> jmul q' 100"
    unfolding jmul_def by simp_all
  then have "jmul q' 100 \<le> 100 * q + 1 / 2 ^ 44" "100 * q - 1 / 2 ^ 44 \<le> jmul q' 100"
    using q' by simp_all
  then show "jmul (jdiv (of_nat k) (of_nat n)) 100 \<le> 100 * of_nat k / of_nat n + 1 / 2 ^ 44"
    and "100 * of_nat k / of_nat n - 1 / 2 ^ 44 \<le> jmul (jdiv (of_nat k) (of_nat n)) 100"
    unfolding q'_def q_def by simp_all
qed

lemma rate_score_close:
  assumes "0 < length xs"
  shows "\<bar>Math_round (jmul (jdiv (count_where P xs) (of_nat (length xs))) 100)
          - spec_rate_score (length (filter P xs)) (length xs)\<bar> \<le> 1"
proof -
  have k: "length (filter P xs) \<le> length xs" by simp
  note e = percent_err [OF k assms]
  have "0 \<le> 100 * (of_nat (length (filter P xs)) :: rat) / of_nat (length xs)" by simp
  then show ?thesis
    unfolding count_where_def spec_rate_score_def using e
    by (intro round_close) simp_all
qed

lemma trust_close:
  assumes s: "0 \<le> s" "s \<le> 100" and r: "0 \<le> r" "r \<le> 100"
    and h: "h \<le> n" and g: "g \<le> n" and n: "0 < n"
  shows "\<bar>trust_formula s (jdiv (of_nat h) (of_nat n)) r (jmul (jdiv (of_nat g) (of_nat n)) 100)
          - spec_trust s (of_nat h / of_nat n) r (of_nat g / of_nat n)\<bar> \<le> 1"
proof -
  define S :: rat where "S = of_int s"
  define R :: rat where "R = of_int r"
  define Hq :: rat where "Hq = of_nat h / of_nat n"
  define Gq :: rat where "Gq = of_nat g / of_nat n"
  define hr where "hr = jdiv (of_nat h) (of_nat n)"
  define nnp where "nnp = jmul (jdiv (of_nat g) (of_nat n)) 100"
  have S: "0 \<le> S" "S \<le> 100" using s by (simp_all add: S_def)
  have R: "0 \<le> R" "R \<le> 100" using r by (simp_all add: R_def)
  have Hq: "0 \<le> Hq" "Hq \<le> 1" using h n by (simp_all add: Hq_def)
  have Gq: "0 \<le> Gq" "Gq \<le> 1" using g n by (simp_all add: Gq_def)
  have hr: "hr \<le> Hq + 1 / 2 ^ 53" "Hq - 1 / 2 ^ 53 \<le> hr"
    unfolding hr_def Hq_def using rate_err [OF h n] by simp_all
  have nnp: "nnp \<le> 100 * Gq + 1 / 2 ^ 44" "100 * Gq - 1 / 2 ^ 44 \<le> nnp"
    unfolding nnp_def Gq_def using percent_err [OF g n] by simp_all
  define a where "a = fl (S * (3152519739159347 / 9007199254740992))"
  define m where "m = fl (hr * 100)"
  define d where "d = fl (100 - m)"
  define b where "b = fl (d * (5404319552844595 / 18014398509481984))"
  define ab where "ab = fl (a + b)"
  define c where "c = fl (R * (1 / 4))"
  define abc where "abc = fl (ab + c)"
  define e where "e = fl (nnp * (3602879701896397 / 36028797018963968))"
  define tot where "tot = fl (abc + e)"
  have a: "a \<le> S * (3152519739159347 / 9007199254740992) + 128 / 2 ^ 53"
          "S * (3152519739159347 / 9007199254740992) - 128 / 2 ^ 53 \<le> a"
    unfolding a_def using S by (intro fl_err_bound; simp add: abs_le_iff)+
  have m: "m \<le> hr * 100 + 128 / 2 ^ 53" "hr * 100 - 128 / 2 ^ 53 \<le> m"
    unfolding m_def using hr Hq by (intro fl_err_bound; simp add: abs_le_iff)+
  have d: "d \<le> 100 - m + 128 / 2 ^ 53" "100 - m - 128 / 2 ^ 53 \<le> d"
    unfolding d_def using m hr Hq by (intro fl_err_bound; simp add: abs_le_iff)+
  have b: "b \<le> d * (5404319552844595 / 18014398509481984) + 128 / 2 ^ 53"
          "d * (5404319552844595 / 18014398509481984) - 128 / 2 ^ 53 \<le> b"
    unfolding b_def using d m hr Hq by (intro fl_err_bound; simp add: abs_le_iff)+
  have ab: "ab \<le> a + b + 128 / 2 ^ 53" "a + b - 128 / 2 ^ 53 \<le> ab"
    unfolding ab_def using a b d m hr Hq S by (intro fl_err_bound; simp add: abs_le_iff)+
  have c: "c \<le> R * (1 / 4) + 128 / 2 ^ 53" "R * (1 / 4) - 128 / 2 ^ 53 \<le> c"
    unfolding c_def using R by (intro fl_err_bound; simp add: abs_le_iff)+
  have abc: "abc \<le> ab + c + 128 / 2 ^ 53" "ab + c - 128 / 2 ^ 53 \<le> abc"
    unfolding abc_def using ab c a b d m hr Hq S R by (intro fl_err_bound; simp add: abs_le_iff)+
  have e: "e \<le> nnp * (3602879701896397 / 36028797018963968) + 128 / 2 ^ 53"
          "nnp * (3602879701896397 / 36028797018963968) - 128 / 2 ^ 53 \<le> e"
    unfolding e_def using nnp Gq by (intro fl_err_bound; simp add: abs_le_iff)+
  have tot: "tot \<le> abc + e + 128 / 2 ^ 53" "abc + e - 128 / 2 ^ 53 \<le> tot"
    unfolding tot_def using abc e ab c a b d m hr Hq S R nnp Gq
    by (intro fl_err_bound; simp add: abs_le_iff)+
  define ex where "ex = 35/100 * S + 30/100 * (100 - 100 * Hq) + 25/100 * R + 10/100 * 100 * Gq"
  have ex0: "0 \<le> ex" unfolding ex_def using S R Hq Gq by simp
  have a': "a \<le> 35/100 * S + 1 / 2 ^ 40" "35/100 * S - 1 / 2 ^ 40 \<le> a"
    using a S by simp_all
  have m': "m \<le> 100 * Hq + 1 / 2 ^ 40" "100 * Hq - 1 / 2 ^ 40 \<le> m"
    using m hr Hq by simp_all
  have d': "d \<le> 100 - 100 * Hq + 1 / 2 ^ 39" "100 - 100 * Hq - 1 / 2 ^ 39 \<le> d"
    using d m' by simp_all
  have b': "b \<le> 30 - 30 * Hq + 1 / 2 ^ 38" "30 - 30 * Hq - 1 / 2 ^ 38 \<le> b"
    using b d' Hq by simp_all
  have c': "c \<le> 25/100 * R + 1 / 2 ^ 40" "25/100 * R - 1 / 2 ^ 40 \<le> c"
    using c R by simp_all
  have e': "e \<le> 10 * Gq + 1 / 2 ^ 40" "10 * Gq - 1 / 2 ^ 40 \<le> e"
    using e nnp Gq by simp_all
  have ab': "ab \<le> 35/100 * S + 30 - 30 * Hq + 1 / 2 ^ 37"
            "35/100 * S + 30 - 30 * Hq - 1 / 2 ^ 37 \<le> ab"
    using ab a' b' by simp_all
  have abc': "abc \<le> 35/100 * S + 30 - 30 * Hq + 25/100 * R + 1 / 2 ^ 36"
             "35/100 * S + 30 - 30 * Hq + 25/100 * R - 1 / 2 ^ 36 \<le> abc"
    using abc ab' c' by simp_all
  have ex: "ex = 35/100 * S + 30 - 30 * Hq + 25/100 * R + 10 * Gq"
    unfolding ex_def by (simp add: algebra_simps)
  have close: "tot - ex < 1" "ex - tot < 1"
    unfolding ex using tot abc' e' by simp_all
  have code: "trust_formula s hr r nnp = Math_round tot"
    unfolding trust_formula_def W35 W30 W25 W10 jadd_def jsub_def jmul_def
      tot_def abc_def e_def ab_def c_def a_def b_def d_def m_def S_def R_def ..
  have spec: "spec_trust s Hq r Gq = spec_round ex"
    unfolding spec_trust_def ex_def S_def R_def ..
  show ?thesis
    unfolding hr_def [symmetric] nnp_def [symmetric] Hq_def [symmetric] Gq_def [symmetric]
      code spec
    using close ex0 by (rule round_close)
qed

lemma overall_close:
  assumes t: "0 \<le> t" "t \<le> 100" and v: "0 \<le> v" "v \<le> 100" and r: "0 \<le> r" "r \<le> 100"
    and c: "0 \<le> c" "c \<le> 100" and s: "0 \<le> s" "s \<le> 100" and cf: "0 \<le> cf" "cf \<le> 100"
  shows "\<bar>overall_formula t v r c s cf - spec_overall t v r c s cf\<bar> \<le> 1"
proof -
  define T :: rat where "T = of_int t"
  define V :: rat where "V = of_int v"
  define R :: rat where "R = of_int r"
  define C :: rat where "C = of_int c"
  define S :: rat where "S = of_int s"
  define F :: rat where "F = of_int cf"
  have T: "0 \<le> T" "T \<le> 100" using t by (simp_all add: T_def)
  have V: "0 \<le> V" "V \<le> 100" using v by (simp_all add: V_def)
  have R: "0 \<le> R" "R \<le> 100" using r by (simp_all add: R_def)
  have C: "0 \<le> C" "C \<le> 100" using c by (simp_all add: C_def)
  have S: "0 \<le> S" "S \<le> 100" using s by (simp_all add: S_def)
  have F: "0 \<le> F" "F \<le> 100" using cf by (simp_all add: F_def)
  define a1 where "a1 = fl (T * (1 / 4))"
  define a2 where "a2 = fl (V * (3602879701896397 / 18014398509481984))"
  define s2 where "s2 = fl (a1 + a2)"
  define a3 where "a3 = fl (R * (3602879701896397 / 18014398509481984))"
  define s3 where "s3 = fl (s2 + a3)"
  define a4 where "a4 = fl (C * (3602879701896397 / 36028797018963968))"
  define s4 where "s4 = fl (s3 + a4)"
  define a5 where "a5 = fl (S * (5404319552844595 / 36028797018963968))"
  define s5 where "s5 = fl (s4 + a5)"
  define a6 where "a6 = fl (F * (3602879701896397 / 36028797018963968))"
  define s6 where "s6 = fl (s5 + a6)"
  have a1: "a1 \<le> T * (1 / 4) + 128 / 2 ^ 53" "T * (1 / 4) - 128 / 2 ^ 53 \<le> a1"
    unfolding a1_def using T by (intro fl_err_bound; simp add: abs_le_iff)+
  have a2: "a2 \<le> V * (3602879701896397 / 18014398509481984) + 128 / 2 ^ 53"
           "V * (3602879701896397 / 18014398509481984) - 128 / 2 ^ 53 \<le> a2"
    unfolding a2_def using V by (intro fl_err_bound; simp add: abs_le_iff)+
  have a3: "a3 \<le> R * (3602879701896397 / 18014398509481984) + 128 / 2 ^ 53"
           "R * (3602879701896397 / 18014398509481984) - 128 / 2 ^ 53 \<le> a3"
    unfolding a3_def using R by (intro fl_err_bound; simp add: abs_le_iff)+
  have a4: "a4 \<le> C * (3602879701896397 / 36028797018963968) + 128 / 2 ^ 53"
           "C * (3602879701896397 / 36028797018963968) - 128 / 2 ^ 53 \<le> a4"
    unfolding a4_def using C by (intro fl_err_bound; simp add: abs_le_iff)+
  have a5: "a5 \<le> S * (5404319552844595 / 36028797018963968) + 128 / 2 ^ 53"
           "S * (5404319552844595 / 36028797018963968) - 128 / 2 ^ 53 \<le> a5"
    unfolding a5_def using S by (intro fl_err_bound; simp add: abs_le_iff)+
  have a6: "a6 \<le> F * (3602879701896397 / 36028797018963968) + 128 / 2 ^ 53"
           "F * (3602879701896397 / 36028797018963968) - 128 / 2 ^ 53 \<le> a6"
    unfolding a6_def using F by (intro fl_err_bound; simp add: abs_le_iff)+
  have a1': "a1 \<le> 25/100 * T + 1 / 2 ^ 40" "25/100 * T - 1 / 2 ^ 40 \<le> a1"
    using a1 T by simp_all
  have a2': "a2 \<le> 20/100 * V + 1 / 2 ^ 40" "20/100 * V - 1 / 2 ^ 40 \<le> a2"
    using a2 V by simp_all
  have a3': "a3 \<le> 20/100 * R + 1 / 2 ^ 40" "20/100 * R - 1 / 2 ^ 40 \<le> a3"
    using a3 R by simp_all
  have a4': "a4 \<le> 10/100 * C + 1 / 2 ^ 40" "10/100 * C - 1 / 2 ^ 40 \<le> a4"
    using a4 C by simp_all
  have a5': "a5 \<le> 15/100 * S + 1 / 2 ^ 40" "15/100 * S - 1 / 2 ^ 40 \<le> a5"
    using a5 S by simp_all
  have a6': "a6 \<le> 10/100 * F + 1 / 2 ^ 40" "10/100 * F - 1 / 2 ^ 40 \<le> a6"
    using a6 F by simp_all
  have s2: "s2 \<le> a1 + a2 + 128 / 2 ^ 53" "a1 + a2 - 128 / 2 ^ 53 \<le> s2"
    unfolding s2_def using a1' a2' T V by (intro fl_err_bound; simp add: abs_le_iff)+
  have s2': "s2 \<le> 25/100 * T + 20/100 * V + 1 / 2 ^ 38"
            "25/100 * T + 20/100 * V - 1 / 2 ^ 38 \<le> s2"
    using s2 a1' a2' by simp_all
  have s3: "s3 \<le> s2 + a3 + 128 / 2 ^ 53" "s2 + a3 - 128 / 2 ^ 53 \<le> s3"
    unfolding s3_def using s2' a3' T V R by (intro fl_err_bound; simp add: abs_le_iff)+
  have s3': "s3 \<le> 25/100 * T + 20/100 * V + 20/100 * R + 1 / 2 ^ 37"
            "25/100 * T + 20/100 * V + 20/100 * R - 1 / 2 ^ 37 \<le> s3"
    using s3 s2' a3' by simp_all
  have s4: "s4 \<le> s3 + a4 + 128 / 2 ^ 53" "s3 + a4 - 128 / 2 ^ 53 \<le> s4"
    unfolding s4_def using s3' a4' T V R C by (intro fl_err_bound; simp add: abs_le_iff)+
  have s4': "s4 \<le> 25/100 * T + 20/100 * V + 20/100 * R + 10/100 * C + 1 / 2 ^ 36"
            "25/100 * T + 20/100 * V + 20/100 * R + 10/100 * C - 1 / 2 ^ 36 \<le> s4"
    using s4 s3' a4' by simp_all
  have s5: "s5 \<le> s4 + a5 + 128 / 2 ^ 53" "s4 + a5 - 128 / 2 ^ 53 \<le> s5"
    unfolding s5_def using s4' a5' T V R C S by (intro fl_err_bound; simp add: abs_le_iff)+
  have s5': "s5 \<le> 25/100 * T + 20/100 * V + 20/100 * R + 10/100 * C + 15/100 * S + 1 / 2 ^ 35"
            "25/100 * T + 20/100 * V + 20/100 * R + 10/100 * C + 15/100 * S - 1 / 2 ^ 35 \<le> s5"
    using s5 s4' a5' by simp_all
  have s6: "s6 \<le> s5 + a6 + 128 / 2 ^ 53" "s5 + a6 - 128 / 2 ^ 53 \<le> s6"
    unfolding s6_def using s5' a6' T V R C S F by (intro fl_err_bound; simp add: abs_le_iff)+
  define ex where "ex = 25/100 * T + 20/100 * V + 20/100 * R + 10/100 * C + 15/100 * S + 10/100 * F"
  have ex0: "0 \<le> ex" unfolding ex_def using T V R C S F by simp
  have close: "s6 - ex < 1" "ex - s6 < 1"
    unfolding ex_def using s6 s5' a6' by simp_all
  have code: "overall_formula t v r c s cf = Math_round s6"
    unfolding overall_formula_def W25 W20 W15 W10 jadd_def jmul_def
      s6_def s5_def s4_def s3_def s2_def a1_def a2_def a3_def a4_def a5_def a6_def
      T_def V_def R_def C_def S_def F_def ..
  have spec: "spec_overall t v r c s cf = spec_round ex"
    unfolding spec_overall_def ex_def T_def V_def R_def C_def S_def F_def ..
  show ?thesis unfolding code spec using close ex0 by (rule round_close)
qed

section \<open>Permuted batches\<close>


section \<open>Counting the matches of an escaped name\<close>

lemma exec_all_skip: "k \<le> length t \<Longrightarrow> exec_all re k t = exec_all re 0 (drop k t)"
proof (induction t arbitrary: k)
  case Nil
  then show ?case by simp
next
  case (Cons c cs)
  then show ?case by (cases k) simp_all
qed

lemma match_here_length: "match_here re s \<Longrightarrow> length re \<le> length s"
  by (induction re s rule: match_here.induct) simp_all

lemma exec_all_empty_pattern: "length (exec_all [] 0 t) = length t + 1"
  by (induction t) simp_all

lemma exec_all_short: "length t < length re \<Longrightarrow> exec_all re 0 t = []"
proof (induction t)
  case Nil
  then show ?case by (cases re) simp_all
next
  case (Cons c cs)
  have "\<not> match_here re (c # cs)" using Cons.prems match_here_length [of re "c # cs"] by auto
  then show ?case using Cons by simp
qed

lemma toLowerCase_take: "toLowerCase (take k t) = take k (toLowerCase t)"
  by (simp add: toLowerCase_def take_map)

lemma length_toLowerCase: "length (toLowerCase s) = length s"
  by (simp add: toLowerCase_def)

lemma prefix_iff_take: "prefix xs ys \<longleftrightarrow> take (length xs) ys = xs"
proof
  assume "prefix xs ys"
  then show "take (length xs) ys = xs" by (auto simp: prefix_def)
next
  assume "take (length xs) ys = xs"
  then show "prefix xs ys" using take_is_prefix [of "length xs" ys] by simp
qed

lemma mention_count_refines:
  "length (exec_all (map Lit (toLowerCase n)) 0 t) = count_occurrences n t"
proof (induction n t rule: count_occurrences.induct)
  case (1 n t)
  let ?re = "map Lit (toLowerCase n)"
  have lre: "length ?re = length n" by (simp add: length_toLowerCase)
  show ?case
  proof (cases "n = []")
    case True
    then show ?thesis
      by (subst count_occurrences.simps) (simp add: toLowerCase_def exec_all_empty_pattern)
  next
    case n: False
    show ?thesis
    proof (cases "length t < length n")
      case True
      then have "exec_all ?re 0 t = []" by (intro exec_all_short) (simp add: length_toLowerCase)
      then show ?thesis using n True
        by (subst count_occurrences.simps) simp
    next
      case False
      then obtain c cs where t: "t = c # cs" using n by (cases t) auto
      have m: "match_here ?re t \<longleftrightarrow> toLowerCase (take (length n) t) = toLowerCase n"
        using prefix_iff_take [of "toLowerCase n" "toLowerCase t"]
        by (simp add: match_here_Lit toLowerCase_take length_toLowerCase)
      show ?thesis
      proof (cases "toLowerCase (take (length n) t) = toLowerCase n")
        case True
        have k: "length n - 1 \<le> length cs" using False t by simp
        have d: "drop (length n) t = drop (length n - 1) cs" using n t by (cases n) simp_all
        have "length (exec_all ?re 0 t) = 1 + length (exec_all ?re (length n - 1) cs)"
          using True m t by (simp add: length_toLowerCase)
        also have "\<dots> = 1 + length (exec_all ?re 0 (drop (length n) t))"
          unfolding d using exec_all_skip [OF k] by simp
        also have "\<dots> = 1 + count_occurrences n (drop (length n) t)"
          using "1.IH"(1) [OF n False True] by simp
        finally show ?thesis using n False True by (subst count_occurrences.simps) simp
      next
        case nm: False
        have "length (exec_all ?re 0 t) = length (exec_all ?re 0 (drop 1 t))"
          using nm m t by simp
        also have "\<dots> = count_occurrences n (drop 1 t)"
          using "1.IH"(2) [OF n False nm] by simp
        finally show ?thesis using n False nm by (subst count_occurrences.simps) simp
      qed
    qed
  qed
qed

lemma primary_mention_count:
  "\<exists>a. analyzeResponse t b cs = Some a \<and> mentionCount a = count_occurrences b t
       \<and> RegExp (escapeRegExp (toLowerCase b)) = Some (map Lit (toLowerCase b))"
  using analyzeResponse_fields [of t b cs] by (auto simp: mention_count_refines RegExp_escape)

section \<open>Example analyses\<close>

lemma scan_analyses_Cons:
  "analyzeResponse t b cs = Some a \<Longrightarrow> scan_analyses (t # ts) b cs = a # scan_analyses ts b cs"
  by (simp add: scan_analyses_def List.map_filter_simps)

lemma scan_analyses_Nil: "scan_analyses [] b cs = []"
  by (simp add: scan_analyses_def List.map_filter_simps)

lemma an_nothing: "analyzeResponse ''Nothing here'' ''Acme'' [] = Some
  \<lparr>mentioned = False, mentionType = ABSENT, mentionContext = [],
     mentionCount = 0, sentiment = NEUTRAL, sentimentScore = 0,
     confidenceScore = 1 / 2, hasHedging = False, hedgingPhrases = [],
     isRecommended = False, recommendationStrength = NONE, citedUrl = None,
     citedSources = [], competitorsMentioned = []\<rparr>"
  by code_simp

lemma an_great: "analyzeResponse ''great quality'' ''Acme'' [] = Some
  \<lparr>mentioned = False, mentionType = ABSENT, mentionContext = [],
     mentionCount = 0, sentiment = POSITIVE, sentimentScore = 1,
     confidenceScore = 3152519739159347 / 4503599627370496,
     hasHedging = False, hedgingPhrases = [], isRecommended = False,
     recommendationStrength = NONE, citedUrl = None, citedSources = [],
     competitorsMentioned = []\<rparr>"
  by code_simp





section \<open>Claims\<close>

text \<open>
  C1, as the code has it. With \<open>delta = current.overall - previous.overall\<close>: without a
  previous score no alert is created; with one, a \<open>SCORE_DROP\<close> alert is created if and
  only if \<open>delta < -10\<close>, that is \<open>delta \<le> -11\<close>, and its severity is \<open>CRITICAL\<close> if
  \<open>delta < -20\<close> and \<open>WARNING\<close> otherwise. Both comparisons of the handler are strict.
\<close>

theorem score_drop_alert_strict:
  "create_alerts sc None = None \<and>
   create_alerts sc (Some prev) =
     (if overall_score sc - overall_score prev < - 10
      then Some \<lparr>alert_type = SCORE_DROP,
                 severity = (if overall_score sc - overall_score prev < - 20
                             then CRITICAL else WARNING),
                 data = (overall_score prev, overall_score sc)\<rparr>
      else None)"
  by (simp add: create_alerts_def)

text \<open>
  C1 as stated fails at both boundaries: a drop from 60 to 50 (\<open>delta = -10\<close>) creates no
  alert, and a drop from 60 to 40 (\<open>delta = -20\<close>) creates a \<open>WARNING\<close>, not a \<open>CRITICAL\<close>.
\<close>

theorem score_drop_boundary_counterexample:
  "create_alerts ((calculateScores [])\<lparr>overall_score := 50\<rparr>)
                 (Some ((calculateScores [])\<lparr>overall_score := 60\<rparr>)) = None \<and>
   map_option severity
     (create_alerts ((calculateScores [])\<lparr>overall_score := 40\<rparr>)
                    (Some ((calculateScores [])\<lparr>overall_score := 60\<rparr>))) = Some WARNING"
  by (simp add: create_alerts_def)

text \<open>
  C2, as the code has it. On the empty batch \<open>calculateScores\<close> returns the fixed object
  of its first branch: visibility, recommendation and citation 0, sentiment and
  confidence 50, and both the trust score and the overall score 0.
\<close>

theorem calculateScores_empty:
  "calculateScores [] =
     \<lparr>overall_score = 0, ai_trust_score = 0, ai_visibility_score = 0,
      ai_recommendation_score = 0, ai_citation_score = 0,
      sentiment_score = 50, confidence_score = 50\<rparr>"
  by (simp add: calculateScores_def)

text \<open>
  C2 as stated fails: the trust and overall scores of the empty batch are 0, while the
  trust expression at sentiment 50, recommendation 0 and no hedging gives 48 (with no
  non-negative mention) or 58 (with all of them), and the overall expression at
  sentiment 50, confidence 50 and zeros elsewhere gives 13.
\<close>

theorem calculateScores_empty_counterexample:
  "ai_trust_score (calculateScores []) = 0 \<and> trust_formula 50 0 0 0 = 48 \<and>
   trust_formula 50 0 0 100 = 58 \<and>
   overall_score (calculateScores []) = 0 \<and> overall_formula 0 0 0 0 50 50 = 13"
proof -
  have "trust_formula 50 0 0 0 = 48" by code_simp
  moreover have "trust_formula 50 0 0 100 = 58" by code_simp
  moreover have "overall_formula 0 0 0 0 50 50 = 13" by code_simp
  ultimately show ?thesis by (simp add: calculateScores_def)
qed

text \<open>
  C3, as the code has it. For the response
  \<open>We love this company, highly recommended and trusted!\<close> and the business \<open>Acme\<close>, with
  any list of competitors, the analysis has \<open>mentioned = false\<close> and mention type
  \<open>ABSENT\<close>; the sentiment comes from the lexicon hits alone (three positive entries, no
  negative one: score 1, category \<open>POSITIVE\<close>); and \<open>isRecommended\<close> is true, with
  strength \<open>MODERATE\<close>, because \<open>recommend\<close> is found and the sentiment is not negative.
\<close>

theorem scenario_A:
  "map_option (\<lambda>a. (mentioned a, mentionType a, sentiment a, sentimentScore a,
                     isRecommended a, recommendationStrength a))
     (analyzeResponse ''We love this company, highly recommended and trusted!'' ''Acme'' cs)
   = Some (False, ABSENT, POSITIVE, 1, True, MODERATE)"
proof -
  let ?t = "''We love this company, highly recommended and trusted!''"
  have m: "str_includes (toLowerCase ?t) (toLowerCase ''Acme'') = False" by code_simp
  have p: "length (hits POSITIVE_INDICATORS ?t) = 3" by code_simp
  have n: "length (hits NEGATIVE_INDICATORS ?t) = 0" by code_simp
  have r: "length (hits RECOMMENDATION_PHRASES ?t) = 1" by code_simp
  have s: "sentiment_score_of 3 0 = 1" by code_simp
  have c: "sentiment_of 3 0 = POSITIVE" by code_simp
  show ?thesis
    using analyzeResponse_fields [of ?t "''Acme''" cs]
    unfolding m p n r s c by auto
qed

text \<open>
  C3 as stated fails: for that response and business, with the default empty list of
  competitors, \<open>isRecommended\<close> is true.
\<close>

theorem scenario_A_counterexample:
  "map_option isRecommended
     (analyzeResponse ''We love this company, highly recommended and trusted!'' ''Acme'' [])
   = Some True"
  by code_simp


text \<open>
  C10. With the empty business name every response is analysed with \<open>mentioned = true\<close>,
  and the empty response is analysed with \<open>mentioned = true\<close> and an empty
  \<open>mentionContext\<close>: there \<open>mentionContext\<close> is not non-empty although \<open>mentioned\<close> holds.
\<close>

theorem empty_business_name:
  "(\<exists>a. analyzeResponse t [] cs = Some a \<and> mentioned a)
   \<and> (\<exists>a. analyzeResponse [] [] cs = Some a \<and> mentioned a \<and> mentionContext a = []
          \<and> \<not> (mentionContext a \<noteq> [] \<longleftrightarrow> mentioned a))"
proof -
  have low: "toLowerCase [] = []" by (simp add: toLowerCase_def)
  have ctx: "mention_context [] [] = []" by code_simp
  have 1: "\<exists>a. analyzeResponse t [] cs = Some a \<and> mentioned a"
    using analyzeResponse_fields [of t "[]" cs] by (auto simp: low str_includes_Nil)
  have 2: "\<exists>a. analyzeResponse [] [] cs = Some a \<and> mentioned a \<and> mentionContext a = []
          \<and> \<not> (mentionContext a \<noteq> [] \<longleftrightarrow> mentioned a)"
    using analyzeResponse_fields [of "[]" "[]" cs] by (auto simp: low ctx)
  show ?thesis using 1 2 by blast
qed

text \<open>
  C8, as the code has it. For every response the confidence score is the double that
  \<open>Math.max(0, Math.min(1, 0.5 + positiveCount * 0.1 - hedgingCount * 0.1))\<close> evaluates
  to, where the counts are the numbers of distinct lexicon entries found as substrings;
  it lies within \<open>1 / 2 ^ 49\<close> of \<open>clamp01(0.5 + 0.1\<times>positiveCount - 0.1\<times>hedgingCount)\<close> in
  exact arithmetic; \<open>hasHedging\<close> holds exactly for two or more hedging hits; and with
  exactly one positive hit and two hedging hits \<open>hasHedging\<close> is true and the score is
  the double \<open>0.39999999999999997\<close>, which is \<open>7205759403792793 / 2 ^ 54\<close>.
\<close>

theorem confidence_score_double:
  "\<exists>a. analyzeResponse t b cs = Some a
     \<and> confidenceScore a =
           confidence_score_of (length (hits POSITIVE_INDICATORS t)) (length (hits HEDGING_WORDS t))
     \<and> \<bar>confidenceScore a -
          spec_confidence (length (hits POSITIVE_INDICATORS t)) (length (hits HEDGING_WORDS t))\<bar>
         \<le> 1 / 2 ^ 49
     \<and> hasHedging a = (2 \<le> length (hits HEDGING_WORDS t))
     \<and> (length (hits POSITIVE_INDICATORS t) = 1 \<and> length (hits HEDGING_WORDS t) = 2 \<longrightarrow>
          hasHedging a \<and> confidenceScore a = 7205759403792793 / 18014398509481984)"
proof -
  obtain a where a: "analyzeResponse t b cs = Some a"
    "confidenceScore a =
       confidence_score_of (length (hits POSITIVE_INDICATORS t)) (length (hits HEDGING_WORDS t))"
    "hasHedging a = (2 \<le> length (hits HEDGING_WORDS t))"
    using analyzeResponse_fields [of t b cs] by blast
  have p: "length (hits POSITIVE_INDICATORS t) \<le> 13"
    using hits_length [of POSITIVE_INDICATORS t] by (simp add: POSITIVE_INDICATORS_def)
  have h: "length (hits HEDGING_WORDS t) \<le> 15"
    using hits_length [of HEDGING_WORDS t] by (simp add: HEDGING_WORDS_def)
  have e: "\<bar>confidenceScore a -
          spec_confidence (length (hits POSITIVE_INDICATORS t)) (length (hits HEDGING_WORDS t))\<bar>
         \<le> 1 / 2 ^ 49"
    unfolding a(2) by (rule conf_err [OF p h])
  have v: "length (hits POSITIVE_INDICATORS t) = 1 \<and> length (hits HEDGING_WORDS t) = 2 \<longrightarrow>
          hasHedging a \<and> confidenceScore a = 7205759403792793 / 18014398509481984"
    using a(2,3) conf_1_2 by simp
  show ?thesis
    by (intro exI [of _ a] conjI) (rule a e v)+
qed

text \<open>The theorem at a response with the hits \<open>might\<close>, \<open>perhaps\<close> and \<open>great\<close>.\<close>

theorem confidence_score_double_witness:
  "map_option (\<lambda>a. (hasHedging a, confidenceScore a))
     (analyzeResponse ''It might perhaps be great'' ''Acme'' [])
   = Some (True, 7205759403792793 / 18014398509481984)"
proof -
  have p: "length (hits POSITIVE_INDICATORS ''It might perhaps be great'') = 1" by code_simp
  have h: "length (hits HEDGING_WORDS ''It might perhaps be great'') = 2" by code_simp
  show ?thesis
    using confidence_score_double [of "''It might perhaps be great''" "''Acme''" "[]"]
    unfolding p h by auto
qed

text \<open>
  C8 as stated fails: for that response the confidence score is \<open>0.39999999999999997\<close>,
  which is neither the rational \<open>4/10\<close> nor the double written \<open>0.4\<close>.
\<close>

theorem confidence_score_counterexample:
  "map_option confidenceScore (analyzeResponse ''It might perhaps be great'' ''Acme'' [])
     = Some (7205759403792793 / 18014398509481984)
   \<and> (7205759403792793 / 18014398509481984 :: rat) \<noteq> 4 / 10
   \<and> (7205759403792793 / 18014398509481984 :: rat) \<noteq> fl (4 / 10)"
proof -
  have "map_option confidenceScore (analyzeResponse ''It might perhaps be great'' ''Acme'' [])
     = Some (7205759403792793 / 18014398509481984)" by code_simp
  moreover have "fl (4 / 10) = 3602879701896397 / 9007199254740992" by code_simp
  ultimately show ?thesis by simp
qed

text \<open>
  C9. For every batch of analyses that \<open>analyzeResponse\<close> produced, the empty batch
  included, the six composite scores and the overall score of \<open>calculateScores\<close> lie
  between 0 and 100, and every analysis of the batch has its \<open>sentimentScore\<close> between
  -1 and 1 and its \<open>confidenceScore\<close> between 0 and 1.
\<close>

theorem score_bounds:
  assumes "\<forall>a \<in> set batch. \<exists>t b cs. analyzeResponse t b cs = Some a"
  shows "in_percent (ai_visibility_score (calculateScores batch))
     \<and> in_percent (sentiment_score (calculateScores batch))
     \<and> in_percent (confidence_score (calculateScores batch))
     \<and> in_percent (ai_recommendation_score (calculateScores batch))
     \<and> in_percent (ai_citation_score (calculateScores batch))
     \<and> in_percent (ai_trust_score (calculateScores batch))
     \<and> in_percent (overall_score (calculateScores batch))
     \<and> (\<forall>a \<in> set batch. - 1 \<le> sentimentScore a \<and> sentimentScore a \<le> 1
                           \<and> 0 \<le> confidenceScore a \<and> confidenceScore a \<le> 1)"
proof -
  have el: "- 1 \<le> sentimentScore a \<and> sentimentScore a \<le> 1
            \<and> 0 \<le> confidenceScore a \<and> confidenceScore a \<le> 1" if mem: "a \<in> set batch" for a
  proof -
    obtain t b cs where "analyzeResponse t b cs = Some a" using assms mem by blast
    then have "sentimentScore a = sentiment_score_of (length (hits POSITIVE_INDICATORS t))
                                    (length (hits NEGATIVE_INDICATORS t))"
      "confidenceScore a = confidence_score_of (length (hits POSITIVE_INDICATORS t))
                                    (length (hits HEDGING_WORDS t))"
      using analyzeResponse_fields [of t b cs] by auto
    then show ?thesis
      using sentiment_score_of_range [of "length (hits POSITIVE_INDICATORS t)" "length (hits NEGATIVE_INDICATORS t)"]
        confidence_score_of_range [of "length (hits POSITIVE_INDICATORS t)" "length (hits HEDGING_WORDS t)"]
      by (simp add: abs_le_iff)
  qed
  then have "\<forall>a \<in> set batch. \<bar>sentimentScore a\<bar> \<le> 1 \<and> 0 \<le> confidenceScore a \<and> confidenceScore a \<le> 1"
    by (simp add: abs_le_iff)
  from calculateScores_bounds [OF this] el show ?thesis by simp
qed

text \<open>The theorem at the batch of the one analysis of \<open>Acme is great\<close>.\<close>

theorem score_bounds_witness:
  "map_option
     (\<lambda>a. in_percent (overall_score (calculateScores [a]))
          \<and> in_percent (ai_trust_score (calculateScores [a]))
          \<and> in_percent (sentiment_score (calculateScores [a]))
          \<and> - 1 \<le> sentimentScore a \<and> sentimentScore a \<le> 1
          \<and> 0 \<le> confidenceScore a \<and> confidenceScore a \<le> 1)
     (analyzeResponse ''Acme is great'' ''Acme'' []) = Some True"
proof -
  obtain a where a: "analyzeResponse ''Acme is great'' ''Acme'' [] = Some a"
    using analyzeResponse_fields [of "''Acme is great''" "''Acme''" "[]"] by blast
  then have "\<forall>x \<in> set [a]. \<exists>t b cs. analyzeResponse t b cs = Some x" by auto
  from score_bounds [OF this] show ?thesis by (simp add: a)
qed

text \<open>
  C4 fails in the competitor scan. \<open>analyzeCompetitorResponse\<close> builds its pattern from
  the lower-cased name without escaping it, so the dot of \<open>Acme Inc.\<close> matches the comma
  of \<open>Acme Inc, a company\<close>: the name does not occur in the response, \<open>mentioned\<close> is
  false, and yet one mention is counted. \<open>analyzeResponse\<close>, which escapes the name,
  counts none at the same input, as the number of occurrences of the name requires
  (lemma \<open>primary_mention_count\<close> proves this for every input of the primary scan).
\<close>

theorem competitor_pattern_unescaped:
  "map_option (\<lambda>a. (c_mentioned a, c_mentionCount a))
     (analyzeCompetitorResponse ''Acme Inc, a company'' ''Acme Inc.'') = Some (False, 1)
   \<and> map_option (\<lambda>a. (mentioned a, mentionCount a))
     (analyzeResponse ''Acme Inc, a company'' ''Acme Inc.'' []) = Some (False, 0)
   \<and> count_occurrences ''Acme Inc.'' ''Acme Inc, a company'' = 0"
proof -
  have 1: "map_option (\<lambda>a. (c_mentioned a, c_mentionCount a))
     (analyzeCompetitorResponse ''Acme Inc, a company'' ''Acme Inc.'') = Some (False, 1)"
    by code_simp
  have 2: "map_option (\<lambda>a. (mentioned a, mentionCount a))
     (analyzeResponse ''Acme Inc, a company'' ''Acme Inc.'' []) = Some (False, 0)"
    by code_simp
  have "length (exec_all (map Lit (toLowerCase ''Acme Inc.'')) 0 ''Acme Inc, a company'') = 0"
    by code_simp
  then have 3: "count_occurrences ''Acme Inc.'' ''Acme Inc, a company'' = 0"
    by (simp only: mention_count_refines)
  show ?thesis using 1 2 3 by simp
qed




text \<open>
  C7, as the code has it. For every non-empty batch of analyses whose sentiment scores
  lie in \<open>[-1, 1]\<close> and whose confidence scores lie in \<open>[0, 1]\<close>: the citation score is
  \<open>Math.round\<close> of \<open>(citedCount / total) * 100\<close>, where \<open>citedCount\<close> counts the analyses
  with a non-empty \<open>citedUrl\<close>; the trust and overall scores are \<open>Math.round\<close> of the
  weighted sums over the already rounded integer scores; all of it in double
  arithmetic, in the order the code writes. Each of the three scores differs by at most
  1 from the formula of the specification in exact arithmetic.
\<close>

theorem weighted_scores_double:
  assumes "batch \<noteq> []"
    and "\<forall>a \<in> set batch. \<bar>sentimentScore a\<bar> \<le> 1 \<and> 0 \<le> confidenceScore a \<and> confidenceScore a \<le> 1"
  shows "ai_citation_score (calculateScores batch)
           = Math_round (jmul (jdiv (count_where (\<lambda>a. truthy (citedUrl a)) batch)
                                    (of_nat (length batch))) 100)
     \<and> ai_trust_score (calculateScores batch)
           = trust_formula (sentiment_score (calculateScores batch))
               (jdiv (count_where hasHedging batch) (of_nat (length batch)))
               (ai_recommendation_score (calculateScores batch))
               (jmul (jdiv (count_where (\<lambda>a. mentionType a \<noteq> NEGATIVE_MENTION) batch)
                           (of_nat (length batch))) 100)
     \<and> overall_score (calculateScores batch)
           = overall_formula (ai_trust_score (calculateScores batch))
               (ai_visibility_score (calculateScores batch))
               (ai_recommendation_score (calculateScores batch))
               (ai_citation_score (calculateScores batch))
               (sentiment_score (calculateScores batch))
               (confidence_score (calculateScores batch))
     \<and> \<bar>ai_citation_score (calculateScores batch)
          - spec_rate_score (length (filter (\<lambda>a. truthy (citedUrl a)) batch)) (length batch)\<bar> \<le> 1
     \<and> \<bar>ai_trust_score (calculateScores batch)
          - spec_trust (sentiment_score (calculateScores batch))
              (of_nat (length (filter hasHedging batch)) / of_nat (length batch))
              (ai_recommendation_score (calculateScores batch))
              (of_nat (length (filter (\<lambda>a. mentionType a \<noteq> NEGATIVE_MENTION) batch))
                 / of_nat (length batch))\<bar> \<le> 1
     \<and> \<bar>overall_score (calculateScores batch)
          - spec_overall (ai_trust_score (calculateScores batch))
              (ai_visibility_score (calculateScores batch))
              (ai_recommendation_score (calculateScores batch))
              (ai_citation_score (calculateScores batch))
              (sentiment_score (calculateScores batch))
              (confidence_score (calculateScores batch))\<bar> \<le> 1"
proof -
  have n: "0 < length batch" using assms(1) by simp
  note eq = calculateScores_nonempty [OF assms(1)]
  note bd = calculateScores_bounds [OF assms(2), unfolded in_percent_def]
  have cit: "\<bar>ai_citation_score (calculateScores batch)
          - spec_rate_score (length (filter (\<lambda>a. truthy (citedUrl a)) batch)) (length batch)\<bar> \<le> 1"
    unfolding eq(5) by (rule rate_score_close [OF n])
  have tr: "\<bar>ai_trust_score (calculateScores batch)
          - spec_trust (sentiment_score (calculateScores batch))
              (of_nat (length (filter hasHedging batch)) / of_nat (length batch))
              (ai_recommendation_score (calculateScores batch))
              (of_nat (length (filter (\<lambda>a. mentionType a \<noteq> NEGATIVE_MENTION) batch))
                 / of_nat (length batch))\<bar> \<le> 1"
    using trust_close [of "sentiment_score (calculateScores batch)"
        "ai_recommendation_score (calculateScores batch)"
        "length (filter hasHedging batch)" "length batch"
        "length (filter (\<lambda>a. mentionType a \<noteq> NEGATIVE_MENTION) batch)"]
      bd(2) bd(4) n eq(6)
    by (simp add: count_where_def)
  have ov: "\<bar>overall_score (calculateScores batch)
          - spec_overall (ai_trust_score (calculateScores batch))
              (ai_visibility_score (calculateScores batch))
              (ai_recommendation_score (calculateScores batch))
              (ai_citation_score (calculateScores batch))
              (sentiment_score (calculateScores batch))
              (confidence_score (calculateScores batch))\<bar> \<le> 1"
    using overall_close [of "ai_trust_score (calculateScores batch)"
        "ai_visibility_score (calculateScores batch)"
        "ai_recommendation_score (calculateScores batch)"
        "ai_citation_score (calculateScores batch)"
        "sentiment_score (calculateScores batch)"
        "confidence_score (calculateScores batch)"]
      bd eq(7)
    by simp
  show ?thesis
    by (intro conjI) (rule eq(5) eq(6) eq(7) cit tr ov)+
qed

text \<open>The theorem at the batch of the one analysis of \<open>great quality\<close>.\<close>

theorem weighted_scores_double_witness:
  "map_option
     (\<lambda>a. \<bar>overall_score (calculateScores [a])
             - spec_overall (ai_trust_score (calculateScores [a]))
                 (ai_visibility_score (calculateScores [a]))
                 (ai_recommendation_score (calculateScores [a]))
                 (ai_citation_score (calculateScores [a]))
                 (sentiment_score (calculateScores [a]))
                 (confidence_score (calculateScores [a]))\<bar> \<le> 1
          \<and> \<bar>ai_citation_score (calculateScores [a])
               - spec_rate_score (length (filter (\<lambda>a. truthy (citedUrl a)) [a])) (length [a])\<bar> \<le> 1)
     (analyzeResponse ''great quality'' ''Acme'' []) = Some True"
proof -
  let ?a = "\<lparr>mentioned = False, mentionType = ABSENT, mentionContext = [],
     mentionCount = 0, sentiment = POSITIVE, sentimentScore = 1,
     confidenceScore = 3152519739159347 / 4503599627370496,
     hasHedging = False, hedgingPhrases = [], isRecommended = False,
     recommendationStrength = NONE, citedUrl = None, citedSources = [],
     competitorsMentioned = []\<rparr>"
  have ne: "[?a] \<noteq> []" by simp
  have rg: "\<forall>a \<in> set [?a]. \<bar>sentimentScore a\<bar> \<le> 1 \<and> 0 \<le> confidenceScore a
              \<and> confidenceScore a \<le> 1"
    by simp
  note th = weighted_scores_double [OF ne rg]
  have c: "\<bar>ai_citation_score (calculateScores [?a])
            - spec_rate_score (length (filter (\<lambda>a. truthy (citedUrl a)) [?a])) (length [?a])\<bar> \<le> 1"
    using th by (elim conjE)
  have o: "\<bar>overall_score (calculateScores [?a])
             - spec_overall (ai_trust_score (calculateScores [?a]))
                 (ai_visibility_score (calculateScores [?a]))
                 (ai_recommendation_score (calculateScores [?a]))
                 (ai_citation_score (calculateScores [?a]))
                 (sentiment_score (calculateScores [?a]))
                 (confidence_score (calculateScores [?a]))\<bar> \<le> 1"
    using th by (elim conjE)
  show ?thesis
    unfolding an_great option.map by (simp only: c o simp_thms)
qed

text \<open>
  C7 as stated fails: for the three responses \<open>Nothing here\<close>, \<open>Nothing here\<close> and
  \<open>great quality\<close> about \<open>Acme\<close> the rounded scores are trust 63, sentiment 67,
  confidence 57 and 0 elsewhere. The weighted sum is \<open>31.5\<close> in exact arithmetic and
  rounds to 32; in doubles it is \<open>31.499999999999996\<close> and the overall score is 31.
\<close>

theorem weighted_scores_counterexample:
  "calculateScores (scan_analyses [''Nothing here'', ''Nothing here'', ''great quality''] ''Acme'' [])
     = \<lparr>overall_score = 31, ai_trust_score = 63, ai_visibility_score = 0,
        ai_recommendation_score = 0, ai_citation_score = 0,
        sentiment_score = 67, confidence_score = 57\<rparr>
   \<and> spec_overall 63 0 0 0 67 57 = 32"
proof -
  have "calculateScores
     [\<lparr>mentioned = False, mentionType = ABSENT, mentionContext = [],
     mentionCount = 0, sentiment = NEUTRAL, sentimentScore = 0,
     confidenceScore = 1 / 2, hasHedging = False, hedgingPhrases = [],
     isRecommended = False, recommendationStrength = NONE, citedUrl = None,
     citedSources = [], competitorsMentioned = []\<rparr>,
      \<lparr>mentioned = False, mentionType = ABSENT, mentionContext = [],
     mentionCount = 0, sentiment = NEUTRAL, sentimentScore = 0,
     confidenceScore = 1 / 2, hasHedging = False, hedgingPhrases = [],
     isRecommended = False, recommendationStrength = NONE, citedUrl = None,
     citedSources = [], competitorsMentioned = []\<rparr>,
      \<lparr>mentioned = False, mentionType = ABSENT, mentionContext = [],
     mentionCount = 0, sentiment = POSITIVE, sentimentScore = 1,
     confidenceScore = 3152519739159347 / 4503599627370496,
     hasHedging = False, hedgingPhrases = [], isRecommended = False,
     recommendationStrength = NONE, citedUrl = None, citedSources = [],
     competitorsMentioned = []\<rparr>]
     = \<lparr>overall_score = 31, ai_trust_score = 63, ai_visibility_score = 0,
        ai_recommendation_score = 0, ai_citation_score = 0,
        sentiment_score = 67, confidence_score = 57\<rparr>"
    by code_simp
  moreover have "spec_overall 63 0 0 0 67 57 = 32" by code_simp
  ultimately show ?thesis
    by (simp add: scan_analyses_Cons [OF an_nothing] scan_analyses_Cons [OF an_great] scan_analyses_Nil)
qed

end
